theory Spec2Isabelle
  imports Complex_Main
begin

section \<open>Python values, errors and the datetime library\<close>

text \<open>
  The model follows \<^verbatim>\<open>src/polygon/base_client.py\<close>. Exceptions are values of
  \<open>pyerr\<close>; a function that can raise returns \<open>pyerr + 'a\<close> with \<open>Inl\<close> the exception.

  Conventions for the standard library (which is not code of the repository):
  \<^item> a \<^verbatim>\<open>timedelta\<close> is an integer number of microseconds;
  \<^item> a \<^verbatim>\<open>date\<close> is its day number relative to 1970-01-01;
  \<^item> a \<^verbatim>\<open>datetime\<close> is its wall-clock reading in microseconds relative to
    1970-01-01T00:00:00 together with an optional fixed UTC offset (\<open>None\<close>: naive);
  \<^item> a \<^verbatim>\<open>float\<close> is the rational number it denotes (infinities and NaN are not
    modelled); a number is an \<^verbatim>\<open>int\<close> or a \<^verbatim>\<open>float\<close> (\<open>pynum\<close>);
  \<^item> \<^verbatim>\<open>strptime\<close>, \<^verbatim>\<open>strftime\<close> and \<^verbatim>\<open>utcfromtimestamp\<close> are parameters
    (\<open>pylib\<close>): what they return, how they round and when they raise is left to the
    library;
  \<^item> \<^verbatim>\<open>int(dt.timestamp() * factor)\<close> is computed exactly;
  \<^item> datetime arithmetic is unbounded: \<^verbatim>\<open>dt + delta\<close> never raises, whereas CPython
    raises \<^verbatim>\<open>OverflowError\<close> outside the years 1 to 9999.
\<close>

datatype pyerr =
  ValueError | KeyError | TypeError | IndexError | JSONDecodeError | TransportError

type_synonym timedelta = int
type_synonym tz = int
type_synonym date = int

record datetime =
  wall :: int
  tzinfo :: "tz option"

datatype pynum = NInt int | NFloat rat

datatype pyval =
    PDateTime datetime
  | PStr string
  | PDate date
  | PInt int
  | PFloat rat
  | PNone
  | POther

record pylib =
  strptime_date :: "string \<Rightarrow> string \<Rightarrow> pyerr + date"
  date_strftime :: "date \<Rightarrow> string \<Rightarrow> string"
  datetime_strftime :: "datetime \<Rightarrow> string \<Rightarrow> string"
  utcfromtimestamp :: "pynum \<Rightarrow> int \<Rightarrow> pyerr + datetime"

text \<open>
  \<open>strptime_date lib s format\<close> is \<^verbatim>\<open>datetime.datetime.strptime(s, format).date()\<close>,
  and \<open>utcfromtimestamp lib x factor\<close> is \<^verbatim>\<open>datetime.datetime.utcfromtimestamp(x / factor)\<close>,
  the division included: a naive datetime or the exception raised.
\<close>

definition us_per_day :: int where
  "us_per_day = 86400000000"

definition timedelta_days :: "int \<Rightarrow> timedelta" where
  \<comment> \<open>\<^verbatim>\<open>datetime.timedelta(days=n)\<close>\<close>
  "timedelta_days n = n * us_per_day"

definition timedelta_hours :: "int \<Rightarrow> timedelta" where
  \<comment> \<open>\<^verbatim>\<open>datetime.timedelta(hours=n)\<close>\<close>
  "timedelta_hours n = n * 3600000000"

definition days :: "timedelta \<Rightarrow> int" where
  \<comment> \<open>the \<^verbatim>\<open>.days\<close> attribute: Python normalises with floor division\<close>
  "days td = td div us_per_day"

definition utc :: tz where
  "utc = 0"

definition trunc_div :: "int \<Rightarrow> int \<Rightarrow> int" where
  \<comment> \<open>\<^verbatim>\<open>int(a / b)\<close> for \<open>b > 0\<close>: truncation towards zero\<close>
  "trunc_div a b = (if 0 \<le> a then a div b else - ((- a) div b))"

definition instant :: "datetime \<Rightarrow> int" where
  \<comment> \<open>microseconds since the epoch of an aware datetime\<close>
  "instant d = wall d - (case tzinfo d of None \<Rightarrow> 0 | Some off \<Rightarrow> off)"

definition timestamp_times :: "datetime \<Rightarrow> int \<Rightarrow> int" where
  \<comment> \<open>\<^verbatim>\<open>int(dt.timestamp() * factor)\<close> for an aware datetime\<close>
  "timestamp_times d factor = trunc_div (instant d * factor) 1000000"

definition dt_date :: "datetime \<Rightarrow> date" where
  \<comment> \<open>\<^verbatim>\<open>dt.date()\<close>\<close>
  "dt_date d = wall d div us_per_day"

definition datetime_of_date :: "date \<Rightarrow> int \<Rightarrow> int \<Rightarrow> datetime" where
  \<comment> \<open>\<^verbatim>\<open>datetime.datetime(dt.year, dt.month, dt.day, hour, minute)\<close>\<close>
  "datetime_of_date d hour minute =
     \<lparr>wall = d * us_per_day + (hour * 3600 + minute * 60) * 1000000, tzinfo = None\<rparr>"

definition replace_tzinfo :: "datetime \<Rightarrow> tz \<Rightarrow> datetime" where
  \<comment> \<open>\<^verbatim>\<open>dt.replace(tzinfo=tz)\<close>\<close>
  "replace_tzinfo d z = d\<lparr>tzinfo := Some z\<rparr>"

definition dt_add :: "datetime \<Rightarrow> timedelta \<Rightarrow> datetime" where
  \<comment> \<open>\<^verbatim>\<open>dt + delta\<close>, without the range check of the library\<close>
  "dt_add d delta = d\<lparr>wall := wall d + delta\<rparr>"

definition dt_sub :: "datetime \<Rightarrow> datetime \<Rightarrow> pyerr + timedelta" where
  \<comment> \<open>\<^verbatim>\<open>a - b\<close>: TypeError when one is naive and the other aware\<close>
  "dt_sub a b =
     (if (tzinfo a = None) = (tzinfo b = None) then Inr (instant a - instant b)
      else Inl TypeError)"

definition dt_ge :: "datetime \<Rightarrow> datetime \<Rightarrow> pyerr + bool" where
  \<comment> \<open>\<^verbatim>\<open>a >= b\<close>: TypeError when one is naive and the other aware\<close>
  "dt_ge a b =
     (if (tzinfo a = None) = (tzinfo b = None) then Inr (instant b \<le> instant a)
      else Inl TypeError)"

definition dt_eq :: "datetime \<Rightarrow> datetime \<Rightarrow> bool" where
  \<comment> \<open>\<^verbatim>\<open>a == b\<close>: a naive and an aware datetime are never equal\<close>
  "dt_eq a b = ((tzinfo a = None) = (tzinfo b = None) \<and> instant a = instant b)"

subsection \<open>A library instance for the default format\<close>

text \<open>
  \<open>iso_lib\<close> implements \<^verbatim>\<open>strptime\<close> and \<^verbatim>\<open>strftime\<close> for the format
  \<^verbatim>\<open>%Y-%m-%d\<close> on zero-padded strings (proleptic Gregorian calendar); it rejects
  every other format. Its \<^verbatim>\<open>utcfromtimestamp\<close> rounds the exact quotient to the
  nearest microsecond, ties to even, and raises \<^verbatim>\<open>ValueError\<close> outside the years 1 to
  9999. It is the instance at which the theorems below are evaluated on concrete
  dates; the theorems themselves hold for every library.
\<close>

definition min_wall :: int where
  \<comment> \<open>\<^verbatim>\<open>datetime.min\<close>, 0001-01-01T00:00:00\<close>
  "min_wall = - 719162 * us_per_day"

definition max_wall :: int where
  \<comment> \<open>\<^verbatim>\<open>datetime.max\<close>, 9999-12-31T23:59:59.999999\<close>
  "max_wall = 2932897 * us_per_day - 1"

definition num_val :: "pynum \<Rightarrow> rat" where
  "num_val x = (case x of NInt n \<Rightarrow> of_int n | NFloat r \<Rightarrow> r)"

definition round_half_even :: "rat \<Rightarrow> int" where
  "round_half_even q =
     (let f = \<lfloor>q\<rfloor>; r = q - of_int f
      in if 2 * r < 1 then f
         else if 1 < 2 * r then f + 1
         else if even f then f else f + 1)"

definition iso_utcfromtimestamp :: "pynum \<Rightarrow> int \<Rightarrow> pyerr + datetime" where
  "iso_utcfromtimestamp x factor =
     (let w = round_half_even (num_val x * 1000000 / of_int factor)
      in if min_wall \<le> w \<and> w \<le> max_wall then Inr \<lparr>wall = w, tzinfo = None\<rparr>
         else Inl ValueError)"

definition days_from_civil :: "int \<Rightarrow> int \<Rightarrow> int \<Rightarrow> date" where
  "days_from_civil y m d =
     (let y1 = (if m \<le> 2 then y - 1 else y);
          era = y1 div 400;
          yoe = y1 - era * 400;
          doy = (153 * (if 2 < m then m - 3 else m + 9) + 2) div 5 + d - 1;
          doe = yoe * 365 + yoe div 4 - yoe div 100 + doy
      in era * 146097 + doe - 719468)"

definition civil_from_days :: "date \<Rightarrow> int \<times> int \<times> int" where
  "civil_from_days z =
     (let z1 = z + 719468;
          era = z1 div 146097;
          doe = z1 - era * 146097;
          yoe = (doe - doe div 1460 + doe div 36524 - doe div 146096) div 365;
          doy = doe - (365 * yoe + yoe div 4 - yoe div 100);
          mp = (5 * doy + 2) div 153;
          d = doy - (153 * mp + 2) div 5 + 1;
          m = (if mp < 10 then mp + 3 else mp - 9)
      in ((if m \<le> 2 then yoe + era * 400 + 1 else yoe + era * 400), m, d))"

fun zero_pad :: "nat \<Rightarrow> nat \<Rightarrow> string" where
  "zero_pad 0 n = []"
| "zero_pad (Suc w) n = zero_pad w (n div 10) @ [char_of (48 + n mod 10)]"

fun parse_digits :: "string \<Rightarrow> nat \<Rightarrow> nat option" where
  "parse_digits [] acc = Some acc"
| "parse_digits (c # cs) acc =
     (let v = (of_char c :: nat)
      in if 48 \<le> v \<and> v \<le> 57 then parse_digits cs (10 * acc + (v - 48)) else None)"

definition iso_strftime :: "date \<Rightarrow> string \<Rightarrow> string" where
  "iso_strftime d format =
     (case civil_from_days d of
        (y, m, dd) \<Rightarrow> zero_pad 4 (nat y) @ ''-'' @ zero_pad 2 (nat m) @ ''-'' @ zero_pad 2 (nat dd))"

definition iso_strptime :: "string \<Rightarrow> string \<Rightarrow> pyerr + date" where
  "iso_strptime s format =
     (if format \<noteq> ''%Y-%m-%d'' \<or> length s \<noteq> 10 \<or> s ! 4 \<noteq> CHR ''-'' \<or> s ! 7 \<noteq> CHR ''-''
        then Inl ValueError
      else
        case (parse_digits (take 4 s) 0, parse_digits (take 2 (drop 5 s)) 0,
              parse_digits (drop 8 s) 0) of
          (Some y, Some m, Some d) \<Rightarrow>
            if civil_from_days (days_from_civil (int y) (int m) (int d)) = (int y, int m, int d)
              then Inr (days_from_civil (int y) (int m) (int d))
            else Inl ValueError
        | _ \<Rightarrow> Inl ValueError)"

definition iso_lib :: pylib where
  "iso_lib = \<lparr>strptime_date = iso_strptime, date_strftime = iso_strftime,
              datetime_strftime = (\<lambda>d. iso_strftime (dt_date d)),
              utcfromtimestamp = iso_utcfromtimestamp\<rparr>"

section \<open>Time normalizer\<close>

definition normalize_date ::
  "pylib \<Rightarrow> date \<Rightarrow> string \<Rightarrow> string \<Rightarrow> string \<Rightarrow> int \<Rightarrow> tz \<Rightarrow> pyval" where
  \<comment> \<open>the \<^verbatim>\<open>isinstance(dt, datetime.date)\<close> block of \<^verbatim>\<open>normalize_datetime\<close>\<close>
  "normalize_date lib d output_type dir format factor z =
     (if output_type = ''ts'' \<and> dir = ''start''
        then PInt (timestamp_times (replace_tzinfo (datetime_of_date d 0 0) z) factor)
      else if output_type = ''ts'' \<and> dir = ''end''
        then PInt (timestamp_times (replace_tzinfo (datetime_of_date d 23 59) z) factor)
      else if output_type \<in> {''str'', ''nts''} then PStr (date_strftime lib d format)
      else if output_type = ''datetime''
        then PDateTime (replace_tzinfo (datetime_of_date d 0 0) z)
      else if output_type = ''date'' then PDate d
      else PNone)"

definition unit_factor :: "string \<Rightarrow> int" where
  "unit_factor unit =
     (if unit = ''ms'' then 1000 else if unit = ''ns'' then 1000000000 else 1)"

definition normalize_number ::
  "pylib \<Rightarrow> pynum \<Rightarrow> string \<Rightarrow> string \<Rightarrow> int \<Rightarrow> tz \<Rightarrow> pyerr + pyval" where
  \<comment> \<open>the \<^verbatim>\<open>isinstance(dt, (int, float))\<close> block after its test for \<^verbatim>\<open>ts\<close> and
      \<^verbatim>\<open>nts\<close>: the conversion comes before the tests of the output kind\<close>
  "normalize_number lib x output_type format factor z =
     (case utcfromtimestamp lib x factor of
        Inl e \<Rightarrow> Inl e
      | Inr d0 \<Rightarrow>
          let d = replace_tzinfo d0 z
          in if output_type = ''str'' then Inr (PStr (datetime_strftime lib d format))
             else if output_type = ''datetime'' then Inr (PDateTime d)
             else if output_type = ''date'' then Inr (PDate (dt_date d))
             else Inr PNone)"

definition normalize_datetime ::
  "pylib \<Rightarrow> pyval \<Rightarrow> string \<Rightarrow> string \<Rightarrow> string \<Rightarrow> string \<Rightarrow> tz option \<Rightarrow> pyerr + pyval" where
  "normalize_datetime lib dt output_type dir format unit tz0 =
     (let z = (case tz0 of None \<Rightarrow> utc | Some z' \<Rightarrow> z');
          factor = unit_factor unit
      in case dt of
           PDateTime d \<Rightarrow>
             if output_type = ''date'' then Inr (PDate (dt_date d))
             else
               let d' = (if tzinfo d = None then replace_tzinfo d z else d)
               in if output_type = ''datetime'' then Inr (PDateTime d')
                  else if output_type \<in> {''ts'', ''nts''}
                    then Inr (PInt (timestamp_times d' factor))
                  else if output_type = ''str''
                    then Inr (PStr (datetime_strftime lib d' format))
                  else Inr PNone
         | PStr s \<Rightarrow>
             (case strptime_date lib s format of
                Inl e \<Rightarrow> Inl e
              | Inr d \<Rightarrow> Inr (normalize_date lib d output_type dir format factor z))
         | PDate d \<Rightarrow> Inr (normalize_date lib d output_type dir format factor z)
         | PInt n \<Rightarrow>
             if output_type \<in> {''ts'', ''nts''} then Inr (PInt n)
             else normalize_number lib (NInt n) output_type format factor z
         | PFloat r \<Rightarrow>
             if output_type \<in> {''ts'', ''nts''} then Inr (PFloat r)
             else normalize_number lib (NFloat r) output_type format factor z
         | PNone \<Rightarrow> Inr PNone
         | POther \<Rightarrow> Inr PNone)"

text \<open>The defaults of the keyword parameters, as the callers in the file use them.\<close>

definition normalize_ts :: "pylib \<Rightarrow> pyval \<Rightarrow> string \<Rightarrow> pyerr + pyval" where
  \<comment> \<open>\<^verbatim>\<open>normalize_datetime(dt, _dir=dir)\<close>\<close>
  "normalize_ts lib dt dir = normalize_datetime lib dt ''ts'' dir ''%Y-%m-%d'' ''ms'' None"

definition normalize_out :: "pylib \<Rightarrow> pyval \<Rightarrow> string \<Rightarrow> string \<Rightarrow> pyerr + pyval" where
  \<comment> \<open>\<^verbatim>\<open>normalize_datetime(dt, output_type, _dir=dir)\<close>\<close>
  "normalize_out lib dt output_type dir =
     normalize_datetime lib dt output_type dir ''%Y-%m-%d'' ''ms'' None"

section \<open>Range splitter\<close>

definition TIME_FRAME_CHUNKS :: "string \<Rightarrow> timedelta option" where
  "TIME_FRAME_CHUNKS = map_of
     [(''second'', timedelta_hours 1),
      (''minute'', timedelta_days 45),
      (''min'', timedelta_days 45),
      (''hour'', timedelta_days 60),
      (''day'', timedelta_days 3500),
      (''week'', timedelta_days 3500),
      (''month'', timedelta_days 3500),
      (''quarter'', timedelta_days 3500),
      (''year'', timedelta_days 3500)]"

definition split_delta :: "string \<Rightarrow> bool \<Rightarrow> pyerr + timedelta" where
  \<comment> \<open>the chunk duration of \<^verbatim>\<open>split_date_range\<close> (its lines 50 to 66); the
      \<^verbatim>\<open>KeyError\<close> of the table is re-raised as \<^verbatim>\<open>ValueError\<close>\<close>
  "split_delta timespan0 high_volatility =
     (let timespan = (if timespan0 = ''min'' then ''minute'' else timespan0)
      in case TIME_FRAME_CHUNKS timespan of
           None \<Rightarrow> Inl ValueError
         | Some delta \<Rightarrow>
             if high_volatility then
               if timespan \<in> {''minute'', ''hour''} then Inr (timedelta_days (days delta - 20))
               else Inr (timedelta_days (days delta - 1500))
             else Inr delta)"

definition split_bounds :: "pylib \<Rightarrow> pyval \<Rightarrow> pyval \<Rightarrow> pyerr + (pyval \<times> pyval)" where
  \<comment> \<open>lines 68 and 70 of \<^verbatim>\<open>split_date_range\<close>: both ends as timestamps, then both
      as datetimes\<close>
  "split_bounds lib start end' =
     (case normalize_ts lib start ''start'' of
        Inl e \<Rightarrow> Inl e
      | Inr start1 \<Rightarrow>
     (case normalize_ts lib end' ''end'' of
        Inl e \<Rightarrow> Inl e
      | Inr end1 \<Rightarrow>
     (case normalize_out lib start1 ''datetime'' ''start'' of
        Inl e \<Rightarrow> Inl e
      | Inr start2 \<Rightarrow>
     (case normalize_out lib end1 ''datetime'' ''start'' of
        Inl e \<Rightarrow> Inl e
      | Inr end2 \<Rightarrow> Inr (start2, end2)))))"

partial_function (option) split_loop ::
  "timedelta \<Rightarrow> datetime \<Rightarrow> datetime \<Rightarrow> (datetime \<times> datetime) list
     \<Rightarrow> (pyerr + (datetime \<times> datetime) list) option" where
  "split_loop delta end'dt current final_time_chunks =
     (let probable_next_date = dt_add current delta
      in case dt_ge probable_next_date end'dt of
           Inl e \<Rightarrow> Some (Inl e)
         | Inr ge \<Rightarrow>
             if ge then
               if dt_eq current probable_next_date then Some (Inr final_time_chunks)
               else Some (Inr (final_time_chunks @ [(current, end'dt)]))
             else split_loop delta end'dt probable_next_date
                    (final_time_chunks @ [(current, probable_next_date)]))"

declare split_loop.simps [code]

definition chunk_val :: "datetime \<times> datetime \<Rightarrow> pyval \<times> pyval" where
  "chunk_val c = (PDateTime (fst c), PDateTime (snd c))"

definition split_date_range ::
  "pylib \<Rightarrow> pyval \<Rightarrow> pyval \<Rightarrow> string \<Rightarrow> bool \<Rightarrow> bool \<Rightarrow> (pyerr + (pyval \<times> pyval) list) option" where
  \<comment> \<open>\<open>None\<close>: the call does not return\<close>
  "split_date_range lib start end' timespan high_volatility reverse =
     (case split_delta timespan high_volatility of
        Inl e \<Rightarrow> Some (Inl e)
      | Inr delta \<Rightarrow>
     (case split_bounds lib start end' of
        Inl e \<Rightarrow> Some (Inl e)
      | Inr (PDateTime start_dt, PDateTime end'dt) \<Rightarrow>
          (case dt_sub end'dt start_dt of
             Inl e \<Rightarrow> Some (Inl e)
           | Inr diff \<Rightarrow>
               if days diff < days delta then
                 (case normalize_out lib start ''nts'' ''start'' of
                    Inl e \<Rightarrow> Some (Inl e)
                  | Inr a \<Rightarrow>
                 (case normalize_out lib end' ''nts'' ''start'' of
                    Inl e \<Rightarrow> Some (Inl e)
                  | Inr b \<Rightarrow> Some (Inr [(a, b)])))
               else
                 (case split_loop delta end'dt start_dt [] of
                    None \<Rightarrow> None
                  | Some (Inl e) \<Rightarrow> Some (Inl e)
                  | Some (Inr final_time_chunks) \<Rightarrow>
                      Some (Inr (map chunk_val
                        (if reverse then rev final_time_chunks else final_time_chunks)))))
      | Inr _ \<Rightarrow> Some (Inl TypeError)))"

definition known_output :: "string \<Rightarrow> bool" where
  "known_output output_type = (output_type \<in> {''ts'', ''nts'', ''str'', ''datetime'', ''date''})"

definition unsupported :: "pyval \<Rightarrow> string \<Rightarrow> string \<Rightarrow> bool" where
  \<comment> \<open>the input matches none of the accepted shapes combined with the output kind: no
      branch of \<^verbatim>\<open>normalize_datetime\<close> returns for it\<close>
  "unsupported dt output_type dir =
     (case dt of
        PNone \<Rightarrow> True
      | POther \<Rightarrow> True
      | PStr s \<Rightarrow>
          \<not> known_output output_type
          \<or> (output_type = ''ts'' \<and> dir \<noteq> ''start'' \<and> dir \<noteq> ''end'')
      | PDate d \<Rightarrow>
          \<not> known_output output_type
          \<or> (output_type = ''ts'' \<and> dir \<noteq> ''start'' \<and> dir \<noteq> ''end'')
      | _ \<Rightarrow> \<not> known_output output_type)"

text \<open>
  Windows that follow one another from \<open>a\<close> to \<open>b\<close>: the first starts at \<open>a\<close>, each one
  ends where the next starts, the last ends at \<open>b\<close>, and each is non-empty and at most
  \<open>delta\<close> long.
\<close>

fun chained :: "timedelta \<Rightarrow> datetime \<Rightarrow> datetime \<Rightarrow> (datetime \<times> datetime) list \<Rightarrow> bool" where
  "chained delta a b [] = False"
| "chained delta a b [w] =
     (fst w = a \<and> snd w = b \<and> instant a < instant b \<and> instant b - instant a \<le> delta)"
| "chained delta a b (w # v # ws) =
     (fst w = a \<and> instant a < instant (snd w) \<and> instant (snd w) - instant a \<le> delta
      \<and> chained delta (snd w) b (v # ws))"

section \<open>Pagination walker\<close>

text \<open>
  A decoded page is a dictionary of which the code reads four keys; a key that is absent
  is \<open>None\<close>. A raw response carries its truth value (\<^verbatim>\<open>bool(response)\<close>: for
  \<^verbatim>\<open>requests\<close> the status is below 400, for \<^verbatim>\<open>httpx\<close> always true) and its body
  (\<open>None\<close>: the body is not JSON). Bodies that decode are JSON objects whose
  \<^verbatim>\<open>results\<close>, when present, is a list. The session is a function from a URL to a
  response or a transport exception; every request is appended to a trace. The parameter
  \<^verbatim>\<open>verbose\<close> only selects \<^verbatim>\<open>print\<close> statements and is left out.
\<close>

record 'r page =
  results :: "'r list option"
  next_url :: "string option"
  previous_url :: "string option"
  status :: "string option"

record 'r response =
  truthy :: bool
  body :: "'r page option"

datatype 'r res = Raw "'r response" | Dict "'r page"

type_synonym 'r session = "string \<Rightarrow> pyerr + 'r response"

definition error_vars :: "'r page" where
  \<comment> \<open>\<^verbatim>\<open>vars(e)\<close> of a \<^verbatim>\<open>JSONDecodeError\<close>: none of the four keys\<close>
  "error_vars = \<lparr>results = None, next_url = None, previous_url = None, status = None\<rparr>"

definition to_json_safe :: "'r res \<Rightarrow> 'r page" where
  "to_json_safe response =
     (case response of
        Dict p \<Rightarrow> p
      | Raw r \<Rightarrow> (case body r of Some p \<Rightarrow> p | None \<Rightarrow> error_vars))"

definition get_page_by_url ::
  "'r session \<Rightarrow> string \<Rightarrow> bool \<Rightarrow> string list \<Rightarrow> (pyerr + 'r res) \<times> string list" where
  "get_page_by_url session url raw_response trace =
     (case session url of
        Inl e \<Rightarrow> (Inl e, trace @ [url])
      | Inr r \<Rightarrow>
          (if raw_response then Inr (Raw r) else Inr (Dict (to_json_safe (Raw r))), trace @ [url]))"

definition old_response_json :: "'r res \<Rightarrow> pyerr + 'r page" where
  \<comment> \<open>\<^verbatim>\<open>old_response.json()\<close> unless it is a dictionary already\<close>
  "old_response_json old_response =
     (case old_response of
        Dict p \<Rightarrow> Inr p
      | Raw r \<Rightarrow> (case body r of Some p \<Rightarrow> Inr p | None \<Rightarrow> Inl JSONDecodeError))"

definition get_next_page ::
  "'r session \<Rightarrow> 'r res \<Rightarrow> bool \<Rightarrow> string list \<Rightarrow> (pyerr + 'r res option) \<times> string list" where
  \<comment> \<open>\<open>Inr None\<close> is the return value \<^verbatim>\<open>False\<close>\<close>
  "get_next_page session old_response raw_response trace =
     (case old_response_json old_response of
        Inl e \<Rightarrow> (Inl e, trace)
      | Inr old \<Rightarrow>
          (case next_url old of
             None \<Rightarrow> (Inr None, trace)
           | Some url \<Rightarrow>
               (case get_page_by_url session url raw_response trace of
                  (Inl e, trace') \<Rightarrow> (Inl e, trace')
                | (Inr r, trace') \<Rightarrow> (Inr (Some r), trace'))))"

definition get_previous_page ::
  "'r session \<Rightarrow> 'r res \<Rightarrow> bool \<Rightarrow> string list \<Rightarrow> (pyerr + 'r res option) \<times> string list" where
  "get_previous_page session old_response raw_response trace =
     (case old_response_json old_response of
        Inl e \<Rightarrow> (Inl e, trace)
      | Inr old \<Rightarrow>
          (case previous_url old of
             None \<Rightarrow> (Inr None, trace)
           | Some url \<Rightarrow>
               (case get_page_by_url session url raw_response trace of
                  (Inl e, trace') \<Rightarrow> (Inl e, trace')
                | (Inr r, trace') \<Rightarrow> (Inr (Some r), trace'))))"

definition res_truthy :: "'r res \<Rightarrow> bool" where
  \<comment> \<open>\<^verbatim>\<open>bool(_res)\<close>; a decoded page is a dictionary with keys, which is true\<close>
  "res_truthy r = (case r of Raw x \<Rightarrow> truthy x | Dict p \<Rightarrow> True)"

definition effective_max_pages :: "int option \<Rightarrow> int option" where
  \<comment> \<open>\<^verbatim>\<open>if not max_pages: max_pages = float("inf")\<close>; \<open>None\<close> is infinity\<close>
  "effective_max_pages max_pages =
     (case max_pages of None \<Rightarrow> None | Some m \<Rightarrow> if m = 0 then None else Some m)"

definition cap_reached :: "nat \<Rightarrow> int option \<Rightarrow> bool" where
  \<comment> \<open>\<^verbatim>\<open>len(container) >= max_pages\<close>\<close>
  "cap_reached n cap = (case cap of None \<Rightarrow> False | Some m \<Rightarrow> m \<le> int n)"

definition fetch_step ::
  "'r session \<Rightarrow> bool \<Rightarrow> 'r res \<Rightarrow> string list \<Rightarrow> (pyerr + 'r res option) \<times> string list" where
  \<comment> \<open>\<^verbatim>\<open>fn(_res, raw_response=True)\<close> of \<^verbatim>\<open>get_all_pages\<close>\<close>
  "fetch_step session backwards res trace =
     (if backwards then get_previous_page session res True trace
      else get_next_page session res True trace)"

partial_function (option) pages_loop ::
  "'r session \<Rightarrow> bool \<Rightarrow> int option \<Rightarrow> bool \<Rightarrow> 'r res \<Rightarrow> 'r res list \<Rightarrow> string list
     \<Rightarrow> ((pyerr + 'r res list) \<times> string list) option" where
  "pages_loop session backwards cap raw_responses res container trace =
     (if cap_reached (length container) cap then Some (Inr container, trace)
      else
        case fetch_step session backwards res trace of
          (Inl e, trace') \<Rightarrow> Some (Inl e, trace')
        | (Inr None, trace') \<Rightarrow> Some (Inr container, trace')
        | (Inr (Some r), trace') \<Rightarrow>
            if \<not> res_truthy r then Some (Inr container, trace')
            else if raw_responses
              then pages_loop session backwards cap raw_responses r (container @ [r]) trace'
            else pages_loop session backwards cap raw_responses r
                   (container @ [Dict (to_json_safe r)]) trace')"

declare pages_loop.simps [code]

definition get_all_pages ::
  "'r session \<Rightarrow> 'r res \<Rightarrow> int option \<Rightarrow> string \<Rightarrow> bool \<Rightarrow> string list
     \<Rightarrow> ((pyerr + 'r res list) \<times> string list) option" where
  "get_all_pages session old_response max_pages direction raw_responses trace =
     pages_loop session (direction \<in> {''prev'', ''previous''}) (effective_max_pages max_pages)
       raw_responses old_response [] trace"

fun merge_results :: "'r res list \<Rightarrow> 'r list \<Rightarrow> pyerr + 'r list" where
  \<comment> \<open>\<^verbatim>\<open>for page in pages: container += page["results"]\<close>\<close>
  "merge_results [] container = Inr container"
| "merge_results (Dict p # pages) container =
     (case results p of
        None \<Rightarrow> Inl KeyError
      | Some rs \<Rightarrow> merge_results pages (container @ rs))"
| "merge_results (Raw r # pages) container = Inl TypeError"

datatype 'r paginated = Pages "'r res list" | Records "'r list"

definition paginate ::
  "'r session \<Rightarrow> 'r res \<Rightarrow> bool \<Rightarrow> int option \<Rightarrow> bool \<Rightarrow> string list
     \<Rightarrow> ((pyerr + 'r paginated) \<times> string list) option" where
  \<comment> \<open>the method \<^verbatim>\<open>_paginate\<close>\<close>
  "paginate session res merge_all_pages max_pages0 raw_page_responses trace =
     (let max_pages = map_option (\<lambda>m. m - 1) max_pages0
      in if merge_all_pages then
           (case get_all_pages session res max_pages ''next'' False trace of
              None \<Rightarrow> None
            | Some (Inl e, trace') \<Rightarrow> Some (Inl e, trace')
            | Some (Inr rest, trace') \<Rightarrow>
                (let pages = Dict (to_json_safe res) # rest
                 in case merge_results pages [] of
                      Inl KeyError \<Rightarrow> Some (Inr (Pages pages), trace')
                    | Inl e \<Rightarrow> Some (Inl e, trace')
                    | Inr container \<Rightarrow> Some (Inr (Records container), trace')))
         else if raw_page_responses then
           (case get_all_pages session res max_pages ''next'' True trace of
              None \<Rightarrow> None
            | Some (Inl e, trace') \<Rightarrow> Some (Inl e, trace')
            | Some (Inr rest, trace') \<Rightarrow> Some (Inr (Pages (res # rest)), trace'))
         else
           (case get_all_pages session res max_pages ''next'' False trace of
              None \<Rightarrow> None
            | Some (Inl e, trace') \<Rightarrow> Some (Inl e, trace')
            | Some (Inr rest, trace') \<Rightarrow>
                Some (Inr (Pages (Dict (to_json_safe res) # rest)), trace')))"

subsection \<open>Example page chains\<close>

text \<open>
  The chain \<open>P0 \<rightarrow> P1 \<rightarrow> P2\<close>, where \<open>P2\<close> has no \<^verbatim>\<open>next_url\<close>; the chain
  \<open>M0 \<rightarrow> M1 \<rightarrow> P2\<close>, where \<open>M1\<close> has no \<^verbatim>\<open>results\<close>; and the page \<open>G0\<close>, whose
  \<^verbatim>\<open>next_url\<close> is answered with a body that is not JSON. \<open>chain_session\<close> serves them
  all.
\<close>

definition page_P0 :: "nat page" where
  "page_P0 = \<lparr>results = Some [1, 2], next_url = Some ''u1'', previous_url = None,
              status = Some ''OK''\<rparr>"

definition page_P1 :: "nat page" where
  "page_P1 = \<lparr>results = Some [3, 4], next_url = Some ''u2'', previous_url = Some ''u0'',
              status = Some ''OK''\<rparr>"

definition page_P2 :: "nat page" where
  "page_P2 = \<lparr>results = Some [5, 6], next_url = None, previous_url = Some ''u1'',
              status = Some ''OK''\<rparr>"

definition page_M0 :: "nat page" where
  "page_M0 = \<lparr>results = Some [7], next_url = Some ''m1'', previous_url = None,
              status = Some ''OK''\<rparr>"

definition page_M1 :: "nat page" where
  "page_M1 = \<lparr>results = None, next_url = Some ''u2'', previous_url = None,
              status = Some ''ERROR''\<rparr>"

definition page_G0 :: "nat page" where
  "page_G0 = \<lparr>results = Some [8], next_url = Some ''g1'', previous_url = None,
              status = Some ''OK''\<rparr>"

definition ok_response :: "'r page \<Rightarrow> 'r response" where
  "ok_response p = \<lparr>truthy = True, body = Some p\<rparr>"

definition not_json_response :: "nat response" where
  \<comment> \<open>a response with a success status whose body is not JSON\<close>
  "not_json_response = \<lparr>truthy = True, body = None\<rparr>"

definition chain_session :: "nat session" where
  "chain_session url =
     (if url = ''u0'' then Inr (ok_response page_P0)
      else if url = ''u1'' then Inr (ok_response page_P1)
      else if url = ''u2'' then Inr (ok_response page_P2)
      else if url = ''m1'' then Inr (ok_response page_M1)
      else if url = ''g1'' then Inr not_json_response
      else Inl TransportError)"

definition cursor :: "bool \<Rightarrow> 'r page \<Rightarrow> string option" where
  "cursor backwards p = (if backwards then previous_url p else next_url p)"

definition exhausted :: "'r session \<Rightarrow> bool \<Rightarrow> 'r res \<Rightarrow> bool" where
  \<comment> \<open>no page follows \<open>r\<close>: it has no cursor, or the response to its cursor is false\<close>
  "exhausted session backwards r =
     (case old_response_json r of
        Inl e \<Rightarrow> False
      | Inr p \<Rightarrow>
          (case cursor backwards p of
             None \<Rightarrow> True
           | Some url \<Rightarrow> (case session url of Inl e \<Rightarrow> False | Inr x \<Rightarrow> \<not> truthy x)))"

definition page_records :: "'r res \<Rightarrow> 'r list" where
  "page_records r = (case results (to_json_safe r) of None \<Rightarrow> [] | Some rs \<Rightarrow> rs)"

definition is_dict :: "'r res \<Rightarrow> bool" where
  "is_dict r = (case r of Dict p \<Rightarrow> True | Raw x \<Rightarrow> False)"

fun all_results :: "'r res list \<Rightarrow> bool" where
  "all_results [] = True"
| "all_results (r # rs) = (results (to_json_safe r) \<noteq> None \<and> all_results rs)"

section \<open>Fetch-merge engine\<close>

text \<open>
  A bar is a dictionary with the timestamp \<^verbatim>\<open>t\<close>; \<open>other_keys\<close> stands for its other keys.
  The per-window fetch function \<^verbatim>\<open>fn\<close> receives the arguments of the call and, so that
  the upstream may answer the same request differently over time, the trace of the calls
  made before; it returns a decoded page. Every call is appended to the trace. The
  parameters \<^verbatim>\<open>warnings\<close> and \<^verbatim>\<open>info\<close> only select \<^verbatim>\<open>print\<close> statements and are left
  out, as is the size of the worker pool; a sort order is its string value.
\<close>

record candle =
  t :: int
  other_keys :: nat

record fetch_args =
  a_symbol :: string
  a_from :: pyval
  a_to :: pyval
  a_adjusted :: bool
  a_sort :: string
  a_limit :: int
  a_multiplier :: int
  a_timespan :: string
  a_full_range :: "bool option"

type_synonym fetch_fn = "fetch_args list \<Rightarrow> fetch_args \<Rightarrow> candle page"

subsection \<open>Concurrent mode\<close>

fun submit_chunks ::
  "pylib \<Rightarrow> fetch_fn \<Rightarrow> bool \<Rightarrow> string \<Rightarrow> bool \<Rightarrow> int \<Rightarrow> string \<Rightarrow> (pyval \<times> pyval) list
     \<Rightarrow> candle page list \<Rightarrow> fetch_args list \<Rightarrow> (pyerr + candle page list) \<times> fetch_args list" where
  \<comment> \<open>the submission loop; \<open>is_async\<close> selects \<^verbatim>\<open>BaseAsyncClient\<close>, whose calls also
      pass \<^verbatim>\<open>full_range=False\<close>\<close>
  "submit_chunks lib fn is_async symbol adjusted multiplier timespan [] futures trace =
     (Inr futures, trace)"
| "submit_chunks lib fn is_async symbol adjusted multiplier timespan (chunk # time_chunks)
     futures trace =
     (case normalize_out lib (fst chunk) ''nts'' ''start'' of
        Inl e \<Rightarrow> (Inl e, trace)
      | Inr c0 \<Rightarrow>
     (case normalize_out lib (snd chunk) ''nts'' ''end'' of
        Inl e \<Rightarrow> (Inl e, trace)
      | Inr c1 \<Rightarrow>
          (let args = \<lparr>a_symbol = symbol, a_from = c0, a_to = c1, a_adjusted = adjusted,
                       a_sort = ''asc'', a_limit = 500000, a_multiplier = multiplier,
                       a_timespan = timespan,
                       a_full_range = (if is_async then Some False else None)\<rparr>
           in submit_chunks lib fn is_async symbol adjusted multiplier timespan time_chunks
                (futures @ [fn trace args]) (trace @ [args]))))"

fun collect_futures :: "candle page list \<Rightarrow> int \<Rightarrow> candle list \<Rightarrow> pyerr + candle list" where
  \<comment> \<open>the loop over \<^verbatim>\<open>reversed(futures)\<close>, called on the reversed list\<close>
  "collect_futures [] dupe_handler final_results = Inr final_results"
| "collect_futures (future # futures) dupe_handler final_results =
     (case results future of
        None \<Rightarrow> collect_futures futures dupe_handler final_results
      | Some data \<Rightarrow>
          if length data < 1 then collect_futures futures dupe_handler final_results
          else
            let final_results' = final_results @ filter (\<lambda>candle. dupe_handler < t candle) data
            in if final_results' = [] then Inl IndexError
               else collect_futures futures (t (last final_results')) final_results')"

definition get_full_range_aggregates_parallel ::
  "pylib \<Rightarrow> fetch_fn \<Rightarrow> bool \<Rightarrow> string \<Rightarrow> (pyval \<times> pyval) list \<Rightarrow> bool \<Rightarrow> string \<Rightarrow> int \<Rightarrow> int
     \<Rightarrow> string \<Rightarrow> (pyerr + candle list) \<times> fetch_args list" where
  \<comment> \<open>\<^verbatim>\<open>get_full_range_aggregates\<close> with \<^verbatim>\<open>run_parallel=True\<close>\<close>
  "get_full_range_aggregates_parallel lib fn is_async symbol time_chunks adjusted sort' limit
     multiplier timespan =
     (case submit_chunks lib fn is_async symbol adjusted multiplier timespan time_chunks [] [] of
        (Inl e, trace) \<Rightarrow> (Inl e, trace)
      | (Inr futures, trace) \<Rightarrow>
          (case collect_futures (rev futures) 0 [] of
             Inl e \<Rightarrow> (Inl e, trace)
           | Inr final_results \<Rightarrow>
               (if sort' \<in> {''desc'', ''descending''} then Inr (rev final_results)
                else Inr final_results, trace)))"

subsection \<open>Sequential mode\<close>

text \<open>
  The bounds of the walk are the timestamps the normalizer returns for the two ends:
  numbers, an \<^verbatim>\<open>int\<close> or a \<^verbatim>\<open>float\<close>, compared with the integer timestamps of the
  bars by their values.
\<close>

definition as_num :: "pyval \<Rightarrow> pynum option" where
  "as_num v = (case v of PInt n \<Rightarrow> Some (NInt n) | PFloat r \<Rightarrow> Some (NFloat r) | _ \<Rightarrow> None)"

definition num_pyval :: "pynum \<Rightarrow> pyval" where
  "num_pyval x = (case x of NInt n \<Rightarrow> PInt n | NFloat r \<Rightarrow> PFloat r)"

definition seq_args ::
  "string \<Rightarrow> pynum \<Rightarrow> pynum \<Rightarrow> bool \<Rightarrow> string \<Rightarrow> int \<Rightarrow> string \<Rightarrow> fetch_args" where
  \<comment> \<open>the arguments of the two calls of \<^verbatim>\<open>fn\<close> in sequential mode\<close>
  "seq_args symbol current_dt end_dt adjusted sort' multiplier timespan =
     \<lparr>a_symbol = symbol, a_from = num_pyval current_dt, a_to = num_pyval end_dt,
      a_adjusted = adjusted, a_sort = sort', a_limit = 500000, a_multiplier = multiplier,
      a_timespan = timespan, a_full_range = Some False\<rparr>"

function seq_loop ::
  "fetch_fn \<Rightarrow> string \<Rightarrow> pynum \<Rightarrow> bool \<Rightarrow> string \<Rightarrow> int \<Rightarrow> string \<Rightarrow> pynum \<Rightarrow> pynum
     \<Rightarrow> candle list \<Rightarrow> fetch_args list \<Rightarrow> (pyerr + candle list) \<times> fetch_args list" where
  "seq_loop fn symbol end_dt adjusted sort' multiplier timespan current_dt dupe_handler
     final_results trace =
     (if num_val end_dt \<le> num_val current_dt then (Inr final_results, trace)
      else
        let args = seq_args symbol current_dt end_dt adjusted sort' multiplier timespan;
            res = fn trace args;
            trace' = trace @ [args]
        in case results res of
             None \<Rightarrow> (Inr final_results, trace')
           | Some data \<Rightarrow>
               if length data < 1 then (Inr final_results, trace')
               else
                 let final_results' =
                       final_results
                       @ filter (\<lambda>candle. num_val dupe_handler < of_int (t candle)) data
                 in if length final_results' = length final_results
                         \<and> of_int (t (last data)) \<le> num_val dupe_handler
                      then (Inr final_results', trace')
                    else if final_results' = [] then (Inl IndexError, trace')
                    else seq_loop fn symbol end_dt adjusted sort' multiplier timespan
                           (NInt (t (last final_results'))) (NInt (t (last final_results')))
                           final_results' trace')"
  by pat_completeness auto
termination
proof (relation "measures
    [\<lambda>(fn, symbol, end_dt, adjusted, sort', multiplier, timespan, current_dt, dupe_handler,
        final_results, trace).
        if current_dt = dupe_handler \<and> (\<exists>k. current_dt = NInt k) then 0 else 1,
     \<lambda>(fn, symbol, end_dt, adjusted, sort', multiplier, timespan, current_dt, dupe_handler,
        final_results, trace). nat (\<lceil>num_val end_dt\<rceil> - \<lfloor>num_val current_dt\<rfloor>)]", goal_cases)
  case 1
  show ?case by simp
next
  case (2 fn symbol end_dt adjusted sort' multiplier timespan current_dt dupe_handler
          final_results trace args res trace' data final_results')
  let ?new = "filter (\<lambda>candle. num_val dupe_handler < of_int (t candle)) data"
  from 2 have fr: "final_results' = final_results @ ?new" by simp
  have "?new \<noteq> []"
  proof
    assume e: "?new = []"
    with fr 2 have "num_val dupe_handler < of_int (t (last data))" by simp
    moreover from 2 have "data \<noteq> []" by auto
    ultimately have "last data \<in> set ?new" by simp
    with e show False by simp
  qed
  then have ne: "?new \<noteq> []" .
  then have "last ?new \<in> set ?new" by (rule last_in_set)
  then have "num_val dupe_handler < of_int (t (last ?new))" by simp
  moreover have "last final_results' = last ?new" using fr ne by simp
  ultimately have up: "num_val dupe_handler < of_int (t (last final_results'))" by simp
  show ?case
  proof (cases "current_dt = dupe_handler \<and> (\<exists>k. current_dt = NInt k)")
    case False
    then show ?thesis by auto
  next
    case True
    then obtain k where k: "current_dt = NInt k" "dupe_handler = NInt k" by auto
    with up have lt: "k < t (last final_results')" by (simp add: num_val_def)
    from 2 k have "rat_of_int k < num_val end_dt" by (simp add: num_val_def)
    then have "k < \<lceil>num_val end_dt\<rceil>" by (simp add: less_ceiling_iff)
    with lt k show ?thesis by (simp add: num_val_def)
  qed
qed

declare seq_loop.simps [simp del]

definition get_full_range_aggregates_sequential ::
  "pylib \<Rightarrow> fetch_fn \<Rightarrow> string \<Rightarrow> pyval \<times> pyval \<Rightarrow> bool \<Rightarrow> string \<Rightarrow> int \<Rightarrow> int \<Rightarrow> string
     \<Rightarrow> (pyerr + candle list) \<times> fetch_args list" where
  \<comment> \<open>\<^verbatim>\<open>get_full_range_aggregates\<close> with \<^verbatim>\<open>run_parallel=False\<close>; \<open>time_chunks\<close> is
      the pair \<^verbatim>\<open>(time_chunks[0], time_chunks[1])\<close>\<close>
  "get_full_range_aggregates_sequential lib fn symbol time_chunks adjusted sort' limit multiplier
     timespan =
     (case normalize_ts lib (fst time_chunks) ''start'' of
        Inl e \<Rightarrow> (Inl e, [])
      | Inr current_dt \<Rightarrow>
     (case normalize_ts lib (snd time_chunks) ''end'' of
        Inl e \<Rightarrow> (Inl e, [])
      | Inr end_dt \<Rightarrow>
     (case normalize_ts lib (fst time_chunks) ''start'' of
        Inl e \<Rightarrow> (Inl e, [])
      | Inr first_entry \<Rightarrow>
     (case TIME_FRAME_CHUNKS timespan of
        None \<Rightarrow> (Inl ValueError, [])
      | Some delta \<Rightarrow>
     (case normalize_out lib end_dt ''datetime'' ''end'' of
        Inl e \<Rightarrow> (Inl e, [])
      | Inr e_dt \<Rightarrow>
     (case normalize_out lib first_entry ''datetime'' ''start'' of
        Inl e \<Rightarrow> (Inl e, [])
      | Inr s_dt \<Rightarrow>
     (case (e_dt, s_dt, as_num current_dt, as_num end_dt) of
        (PDateTime e, PDateTime s, Some current, Some end_ts) \<Rightarrow>
          (case dt_sub e s of
             Inl err \<Rightarrow> (Inl err, [])
           | Inr diff \<Rightarrow>
               if days diff \<le> days delta then
                 (let args = seq_args symbol current end_ts adjusted sort' multiplier timespan
                  in case results (fn [] args) of
                       Some data \<Rightarrow> (Inr data, [args])
                     | None \<Rightarrow> (Inr [], [args]))
               else seq_loop fn symbol end_ts adjusted sort' multiplier timespan current current
                      [] [])
      | _ \<Rightarrow> (Inl TypeError, []))))))))"

subsection \<open>Example fetch functions\<close>

definition bar :: "int \<Rightarrow> candle" where
  "bar k = \<lparr>t = k, other_keys = 0\<rparr>"

definition example_page :: "int list \<Rightarrow> candle page" where
  "example_page ks = \<lparr>results = Some (map bar ks), next_url = None, previous_url = None,
                       status = Some ''OK''\<rparr>"

definition overlap_fn :: fetch_fn where
  \<comment> \<open>the window from 1 has the bars 1, 2, 3; every other window has the bars 3, 4, 5\<close>
  "overlap_fn trace args =
     (if a_from args = PInt 1 then example_page [1, 2, 3] else example_page [3, 4, 5])"

definition unsorted_fn :: fetch_fn where
  \<comment> \<open>every window has the bars 2, 1, 2, in this order\<close>
  "unsorted_fn trace args = example_page [2, 1, 2]"

definition stale_fn :: fetch_fn where
  \<comment> \<open>every request is answered with the bars 1, 2, 3\<close>
  "stale_fn trace args = example_page [1, 2, 3]"

definition strict_overlap_fn :: fetch_fn where
  \<comment> \<open>\<open>overlap_fn\<close> for a call with \<^verbatim>\<open>limit=500000\<close> and \<^verbatim>\<open>sort="asc"\<close>, no bars for
      any other call\<close>
  "strict_overlap_fn trace args =
     (if a_limit args = 500000 \<and> a_sort args = ''asc'' then overlap_fn trace args
      else example_page [])"

definition strict_stale_fn :: fetch_fn where
  \<comment> \<open>\<open>stale_fn\<close> for a call with \<^verbatim>\<open>limit=500000\<close>, no bars for any other call\<close>
  "strict_stale_fn trace args =
     (if a_limit args = 500000 then stale_fn trace args else example_page [])"

definition page_sorted :: "candle page \<Rightarrow> bool" where
  \<comment> \<open>the records of the page, if any, have positive, strictly increasing timestamps\<close>
  "page_sorted p =
     (case results p of
        None \<Rightarrow> True
      | Some data \<Rightarrow> sorted_wrt (<) (map t data) \<and> list_all (\<lambda>c. 0 < t c) data)"

section \<open>Properties of the time normalizer\<close>

lemma normalize_ts_cases:
  "normalize_ts lib x dir = Inr y \<Longrightarrow> (\<exists>n. y = PInt n) \<or> (\<exists>r. y = PFloat r) \<or> y = PNone"
  by (cases x)
     (auto simp: normalize_ts_def normalize_datetime_def normalize_date_def Let_def
           split: sum.splits if_splits)

lemma normalize_out_datetime_of_ts:
  "normalize_out lib y ''datetime'' dir = Inr (PDateTime d)
     \<Longrightarrow> (\<exists>n. y = PInt n) \<or> (\<exists>r. y = PFloat r) \<or> y = PNone
     \<Longrightarrow> tzinfo d = Some 0"
  by (auto simp: normalize_out_def normalize_datetime_def normalize_number_def Let_def
                 replace_tzinfo_def utc_def
           split: sum.splits)

lemma nts_of_ts:
  "normalize_ts lib x dir = Inr y \<Longrightarrow> \<exists>a. normalize_out lib x ''nts'' dir' = Inr a"
  by (cases x)
     (auto simp: normalize_ts_def normalize_out_def normalize_datetime_def normalize_date_def
                 Let_def
           split: sum.splits if_splits)

text \<open>
  Claim C7, as the specification states it, fails: for an input that is none of the
  accepted shapes, here \<^verbatim>\<open>None\<close> with the default output kind, the call raises
  nothing and returns \<^verbatim>\<open>None\<close>.
\<close>

theorem normalize_datetime_None_returns:
  "normalize_datetime iso_lib PNone ''ts'' ''start'' ''%Y-%m-%d'' ''ms'' None = Inr PNone"
  by (simp add: normalize_datetime_def)

text \<open>
  Claim C7, amended: \<^verbatim>\<open>normalize_datetime\<close> has no failure of its own for an input
  that matches none of the accepted shapes combined with the requested output kind. It
  returns \<^verbatim>\<open>None\<close>; only for a string, an integer or a float, whose conversion by the
  library (\<^verbatim>\<open>strptime\<close>, \<^verbatim>\<open>utcfromtimestamp\<close>) comes before the tests of the output
  kind, an exception of that conversion propagates instead.
\<close>

theorem normalize_datetime_unsupported:
  assumes "unsupported dt output_type dir"
  shows "normalize_datetime lib dt output_type dir format unit tz0 =
           (case dt of
              PStr s \<Rightarrow>
                (case strptime_date lib s format of Inl e \<Rightarrow> Inl e | Inr d \<Rightarrow> Inr PNone)
            | PInt n \<Rightarrow>
                (case utcfromtimestamp lib (NInt n) (unit_factor unit) of
                   Inl e \<Rightarrow> Inl e
                 | Inr d \<Rightarrow> Inr PNone)
            | PFloat r \<Rightarrow>
                (case utcfromtimestamp lib (NFloat r) (unit_factor unit) of
                   Inl e \<Rightarrow> Inl e
                 | Inr d \<Rightarrow> Inr PNone)
            | _ \<Rightarrow> Inr PNone)"
  using assms
  by (cases dt)
     (auto simp: normalize_datetime_def normalize_date_def normalize_number_def unsupported_def
                 known_output_def Let_def
           split: sum.splits)

theorem normalize_datetime_unsupported_witness:
  "unsupported POther ''date'' ''end''
   \<and> normalize_datetime iso_lib POther ''date'' ''end'' ''%Y-%m-%d'' ''ns'' (Some 3600000000)
     = Inr PNone
   \<and> unsupported (PInt 1672531200000) ''instant'' ''start''
   \<and> normalize_datetime iso_lib (PInt 1672531200000) ''instant'' ''start'' ''%Y-%m-%d'' ''ms'' None
     = Inr PNone
   \<and> normalize_datetime iso_lib (PInt 100000000000000000000) ''instant'' ''start'' ''%Y-%m-%d''
       ''ms'' None
     = Inl ValueError"
proof -
  have u1: "unsupported POther ''date'' ''end''"
    by (simp add: unsupported_def)
  have u2: "unsupported (PInt n) ''instant'' ''start''" for n
    by (simp add: unsupported_def known_output_def)
  have l1: "utcfromtimestamp iso_lib (NInt 1672531200000) (unit_factor ''ms'')
              = Inr \<lparr>wall = 1672531200000000, tzinfo = None\<rparr>"
    by code_simp
  have l2: "utcfromtimestamp iso_lib (NInt 100000000000000000000) (unit_factor ''ms'')
              = Inl ValueError"
    by code_simp
  from normalize_datetime_unsupported [OF u1, of iso_lib "''%Y-%m-%d''" "''ns''" "Some 3600000000"]
    normalize_datetime_unsupported [OF u2, of iso_lib 1672531200000 "''%Y-%m-%d''" "''ms''" None]
    normalize_datetime_unsupported [OF u2, of iso_lib 100000000000000000000 "''%Y-%m-%d''"
      "''ms''" None]
    u1 u2 l1 l2
  show ?thesis by simp
qed

section \<open>Properties of the range splitter\<close>

text \<open>
  Claim C8: for every key of the chunk table, the chunk duration with
  \<^verbatim>\<open>high_volatility=True\<close> is at most the one with \<^verbatim>\<open>high_volatility=False\<close>; the
  discount is 20 days for minute and hour bars and at least 1500 days for all others.
\<close>

theorem high_volatility_chunk_le:
  assumes "timespan \<in> dom TIME_FRAME_CHUNKS"
  shows "\<exists>hv_delta delta.
           split_delta timespan True = Inr hv_delta \<and> split_delta timespan False = Inr delta
           \<and> hv_delta \<le> delta
           \<and> (if timespan \<in> {''minute'', ''min'', ''hour''}
                then delta - hv_delta = timedelta_days 20
              else timedelta_days 1500 \<le> delta - hv_delta)"
proof -
  from assms have "timespan \<in> {''second'', ''minute'', ''min'', ''hour'', ''day'', ''week'',
                                ''month'', ''quarter'', ''year''}"
    by (auto simp: TIME_FRAME_CHUNKS_def split: if_splits)
  then show ?thesis
    by (elim insertE emptyE;
        simp add: split_delta_def TIME_FRAME_CHUNKS_def timedelta_days_def timedelta_hours_def
                  days_def us_per_day_def)
qed

theorem high_volatility_chunk_le_witness:
  "''hour'' \<in> dom TIME_FRAME_CHUNKS
   \<and> (\<exists>hv_delta delta.
         split_delta ''hour'' True = Inr hv_delta \<and> split_delta ''hour'' False = Inr delta
         \<and> hv_delta \<le> delta \<and> delta - hv_delta = timedelta_days 20)"
proof -
  have h: "''hour'' \<in> dom TIME_FRAME_CHUNKS"
    by (simp add: TIME_FRAME_CHUNKS_def)
  from high_volatility_chunk_le [OF h] h show ?thesis
    by simp
qed

lemma split_delta_pos:
  assumes "split_delta timespan high_volatility = Inr delta"
  shows "(0 < delta) = (\<not> (high_volatility \<and> timespan = ''second''))"
proof -
  from assms have "timespan \<in> {''second'', ''minute'', ''min'', ''hour'', ''day'', ''week'',
                                ''month'', ''quarter'', ''year''}"
    by (auto simp: split_delta_def TIME_FRAME_CHUNKS_def Let_def split: if_splits option.splits)
  then show ?thesis using assms
    by (elim insertE emptyE; cases high_volatility;
        simp add: split_delta_def TIME_FRAME_CHUNKS_def timedelta_days_def timedelta_hours_def
                  days_def us_per_day_def;
        fastforce)
qed

lemma split_bounds_aware:
  assumes "split_bounds lib start end' = Inr (PDateTime s, PDateTime e)"
  shows "tzinfo s = Some 0 \<and> tzinfo e = Some 0"
  using assms unfolding split_bounds_def
  by (auto split: sum.splits dest!: normalize_ts_cases dest: normalize_out_datetime_of_ts)

lemma split_bounds_nts:
  assumes "split_bounds lib start end' = Inr p"
  shows "\<exists>a b. normalize_out lib start ''nts'' ''start'' = Inr a
               \<and> normalize_out lib end' ''nts'' ''start'' = Inr b"
  using assms unfolding split_bounds_def
  by (auto split: sum.splits dest: nts_of_ts)

lemma split_loop_single:
  assumes "tzinfo s \<noteq> None" "tzinfo e \<noteq> None" "instant e - instant s \<le> delta" "delta \<noteq> 0"
  shows "split_loop delta e s acc = Some (Inr (acc @ [(s, e)]))"
  using assms
  by (subst split_loop.simps) (auto simp: Let_def dt_ge_def dt_add_def dt_eq_def instant_def)

lemma split_loop_step:
  assumes "tzinfo s \<noteq> None" "tzinfo e \<noteq> None" "delta < instant e - instant s"
  shows "split_loop delta e s acc
           = split_loop delta e (dt_add s delta) (acc @ [(s, dt_add s delta)])"
  using assms
  by (subst split_loop.simps) (auto simp: Let_def dt_ge_def dt_add_def dt_eq_def instant_def)

lemma split_loop_chained:
  assumes "0 < delta" "tzinfo s \<noteq> None" "tzinfo e \<noteq> None" "instant s < instant e"
  shows "\<exists>cs. split_loop delta e s acc = Some (Inr (acc @ cs)) \<and> chained delta s e cs"
  using assms
proof (induction "nat (instant e - instant s)" arbitrary: s acc rule: less_induct)
  case less
  show ?case
  proof (cases "instant e - instant s \<le> delta")
    case True
    with less.prems have "split_loop delta e s acc = Some (Inr (acc @ [(s, e)]))"
      by (intro split_loop_single) auto
    moreover have "chained delta s e [(s, e)]"
      using True less.prems by simp
    ultimately show ?thesis by blast
  next
    case False
    let ?p = "dt_add s delta"
    have step: "split_loop delta e s acc = split_loop delta e ?p (acc @ [(s, ?p)])"
      using False less.prems by (intro split_loop_step) auto
    have ip: "instant ?p = instant s + delta"
      by (simp add: dt_add_def instant_def)
    have tp: "tzinfo ?p \<noteq> None"
      using less.prems by (simp add: dt_add_def)
    have "nat (instant e - instant ?p) < nat (instant e - instant s)"
      using False less.prems ip by simp
    moreover have "instant ?p < instant e"
      using False ip by simp
    ultimately obtain cs
      where cs: "split_loop delta e ?p (acc @ [(s, ?p)]) = Some (Inr ((acc @ [(s, ?p)]) @ cs))"
                "chained delta ?p e cs"
      using less.hyps [of ?p "acc @ [(s, ?p)]"] less.prems tp by blast
    from cs(2) obtain c cs' where "cs = c # cs'"
      by (cases cs) auto
    with cs(2) have "chained delta s e ((s, ?p) # cs)"
      using ip less.prems by simp
    with cs(1) step show ?thesis by auto
  qed
qed

lemma split_loop_no_result:
  assumes "split_loop delta e s acc = Some y"
    and "delta \<le> 0" "tzinfo s \<noteq> None" "tzinfo e \<noteq> None" "instant s < instant e"
  shows False
  using assms(2-)
proof (induct rule: split_loop.raw_induct [OF _ assms(1)])
  case (1 split_loop' delta e s acc y)
  let ?p = "dt_add s delta"
  have ip: "instant ?p = instant s + delta"
    by (simp add: dt_add_def instant_def)
  have tp: "tzinfo ?p \<noteq> None"
    using 1 by (simp add: dt_add_def)
  from 1 ip tp have "dt_ge ?p e = Inr False"
    by (auto simp: dt_ge_def)
  with 1(2) have "split_loop' delta e ?p (acc @ [(s, ?p)]) = Some y"
    by (simp add: Let_def)
  then show False
    using 1(3-) ip tp by (intro 1(1) [of delta e ?p "acc @ [(s, ?p)]" y]) auto
qed

lemma split_loop_diverges:
  assumes "delta \<le> 0" "tzinfo s \<noteq> None" "tzinfo e \<noteq> None" "instant s < instant e"
  shows "split_loop delta e s acc = None"
  using split_loop_no_result [OF _ assms] by (cases "split_loop delta e s acc") auto



text \<open>
  The windows of the walk, for a positive chunk duration and a start before the end:
  the call returns; either it returns the single window of the two arguments (fewer whole
  days than a chunk), or its windows, put in chronological order, follow one another from
  the normalised start to the normalised end, each non-empty and at most one chunk long.
\<close>

lemma split_date_range_chained:
  assumes "split_delta timespan high_volatility = Inr delta" and "0 < delta"
    and "split_bounds lib start end' = Inr (PDateTime start_dt, PDateTime end_dt)"
    and "instant start_dt < instant end_dt"
  shows "\<exists>ws. split_date_range lib start end' timespan high_volatility reverse = Some (Inr ws)
           \<and> (if days (instant end_dt - instant start_dt) < days delta
                then \<exists>a b. ws = [(a, b)]
                       \<and> normalize_out lib start ''nts'' ''start'' = Inr a
                       \<and> normalize_out lib end' ''nts'' ''start'' = Inr b
              else \<exists>cs. chained delta start_dt end_dt cs
                       \<and> ws = map chunk_val (if reverse then rev cs else cs))"
proof -
  from split_bounds_aware [OF assms(3)]
  have tz: "tzinfo start_dt = Some 0" "tzinfo end_dt = Some 0" by auto
  then have sub: "dt_sub end_dt start_dt = Inr (instant end_dt - instant start_dt)"
    by (simp add: dt_sub_def)
  show ?thesis
  proof (cases "days (instant end_dt - instant start_dt) < days delta")
    case True
    from split_bounds_nts [OF assms(3)] obtain a b
      where "normalize_out lib start ''nts'' ''start'' = Inr a"
            "normalize_out lib end' ''nts'' ''start'' = Inr b" by blast
    with True assms(1,3) sub show ?thesis
      by (simp add: split_date_range_def)
  next
    case False
    from tz assms(2,4) obtain cs
      where cs: "split_loop delta end_dt start_dt [] = Some (Inr ([] @ cs))"
                "chained delta start_dt end_dt cs"
      using split_loop_chained [of delta start_dt end_dt "[]"] by auto
    with False assms(1,3) sub show ?thesis
      by (auto simp: split_date_range_def)
  qed
qed

text \<open>
  Claim C2 at a request of two hours of \<^verbatim>\<open>second\<close> bars with
  \<^verbatim>\<open>high_volatility=True\<close>: the chunk duration is \<open>0 - 1500\<close> days, the walk moves
  away from the end and the call returns no list of windows (with the bounded datetimes
  of CPython the walk ends in \<^verbatim>\<open>OverflowError\<close> when it passes year 1).
\<close>

theorem split_date_range_second_high_volatility:
  "split_delta ''second'' True = Inr (timedelta_days (- 1500))
   \<and> split_date_range iso_lib (PInt 0) (PInt 7200000) ''second'' True True = None"
proof -
  let ?s = "\<lparr>wall = 0, tzinfo = Some 0\<rparr>"
  let ?e = "\<lparr>wall = 7200000000, tzinfo = Some 0\<rparr>"
  have d: "split_delta ''second'' True = Inr (timedelta_days (- 1500))"
    by code_simp
  have b: "split_bounds iso_lib (PInt 0) (PInt 7200000) = Inr (PDateTime ?s, PDateTime ?e)"
    by code_simp
  have sub: "dt_sub ?e ?s = Inr 7200000000"
    by code_simp
  have dd: "\<not> days 7200000000 < days (timedelta_days (- 1500))"
    by code_simp
  have loop: "split_loop (timedelta_days (- 1500)) ?e ?s [] = None"
    by (rule split_loop_diverges) (simp_all add: timedelta_days_def us_per_day_def instant_def)
  show ?thesis
    by (simp add: split_date_range_def d b sub dd loop)
qed

section \<open>Properties of the pagination walker\<close>

lemma fetch_step_cases:
  "(\<exists>e. fetch_step session bw res trace = (Inl e, trace) \<and> old_response_json res = Inl e)
   \<or> (\<exists>p. old_response_json res = Inr p \<and> cursor bw p = None \<and> fetch_step session bw res trace = (Inr None, trace))
   \<or> (\<exists>p url e. old_response_json res = Inr p \<and> cursor bw p = Some url \<and> session url = Inl e \<and> fetch_step session bw res trace = (Inl e, trace @ [url]))
   \<or> (\<exists>p url x. old_response_json res = Inr p \<and> cursor bw p = Some url \<and> session url = Inr x \<and> fetch_step session bw res trace = (Inr (Some (Raw x)), trace @ [url]))"
  by (auto simp: fetch_step_def get_next_page_def get_previous_page_def get_page_by_url_def cursor_def
           split: sum.splits option.splits)

lemma pages_loop_capped:
  "\<exists>out trace'. pages_loop session bw (Some m) raw res container trace = Some (out, trace')
     \<and> int (length trace') \<le> int (length trace) + max 0 (m - int (length container))
     \<and> (\<forall>cs. out = Inr cs \<longrightarrow> int (length cs) \<le> max m (int (length container)))"
proof (induction "nat (m - int (length container))" arbitrary: res container trace rule: less_induct)
  case less
  show ?case
  proof (cases "cap_reached (length container) (Some m)")
    case True
    then show ?thesis by (subst pages_loop.simps) simp
  next
    case False
    then have lt: "int (length container) < m" by (simp add: cap_reached_def)
    note IH = less.hyps
    from fetch_step_cases [of session bw res trace]
    show ?thesis
    proof (elim disjE exE conjE)
      fix e assume "fetch_step session bw res trace = (Inl e, trace)"
      with False lt show ?thesis by (subst pages_loop.simps) simp
    next
      fix p assume "fetch_step session bw res trace = (Inr None, trace)"
      with False lt show ?thesis by (subst pages_loop.simps) simp
    next
      fix p url e assume "fetch_step session bw res trace = (Inl e, trace @ [url])"
      with False lt show ?thesis by (subst pages_loop.simps) simp
    next
      fix p url x assume fs: "fetch_step session bw res trace = (Inr (Some (Raw x)), trace @ [url])"
      show ?thesis
      proof (cases "truthy x")
        case f: False
        with fs False lt show ?thesis by (subst pages_loop.simps) (simp add: res_truthy_def)
      next
        case t: True
        let ?c = "container @ [if raw then Raw x else Dict (to_json_safe (Raw x))]"
        have eq: "pages_loop session bw (Some m) raw res container trace
                  = pages_loop session bw (Some m) raw (Raw x) ?c (trace @ [url])"
          using fs False t by (subst pages_loop.simps) (simp add: res_truthy_def)
        have "nat (m - int (length ?c)) < nat (m - int (length container))" using lt by simp
        from IH [OF this, of "Raw x" "trace @ [url]"] obtain out trace'
          where "pages_loop session bw (Some m) raw (Raw x) ?c (trace @ [url]) = Some (out, trace')"
            "int (length trace') \<le> int (length (trace @ [url])) + max 0 (m - int (length ?c))"
            "\<forall>cs. out = Inr cs \<longrightarrow> int (length cs) \<le> max m (int (length ?c))"
          by blast
        with eq lt show ?thesis by auto
      qed
    qed
  qed
qed


lemma pages_loop_dicts_aux:
  assumes "pages_loop session bw cap raw res container trace = Some out"
    and "\<not> raw" and "\<forall>r \<in> set container. is_dict r"
  shows "\<forall>cs trace'. out = (Inr cs, trace') \<longrightarrow> (\<forall>r \<in> set cs. is_dict r)"
  using assms(2-)
proof (induct rule: pages_loop.raw_induct [OF _ assms(1)])
  case (1 loop session bw cap raw res container trace out)
  show ?case
  proof (cases "cap_reached (length container) cap")
    case True
    with 1(2,4) show ?thesis by auto
  next
    case False
    from fetch_step_cases [of session bw res trace]
    show ?thesis
    proof (elim disjE exE conjE)
      fix e assume "fetch_step session bw res trace = (Inl e, trace)"
      with False 1(2) show ?thesis by auto
    next
      fix p assume "fetch_step session bw res trace = (Inr None, trace)"
      with False 1(2,4) show ?thesis by auto
    next
      fix p url e assume "fetch_step session bw res trace = (Inl e, trace @ [url])"
      with False 1(2) show ?thesis by auto
    next
      fix p url x assume fs: "fetch_step session bw res trace = (Inr (Some (Raw x)), trace @ [url])"
      show ?thesis
      proof (cases "truthy x")
        case f: False
        with fs False 1(2,4) show ?thesis by (auto simp: res_truthy_def)
      next
        case t: True
        let ?c = "container @ [Dict (to_json_safe (Raw x))]"
        from fs False t 1(2,3)
        have "loop session bw cap raw (Raw x) ?c (trace @ [url]) = Some out"
          by (simp add: res_truthy_def)
        moreover have "\<forall>r \<in> set ?c. is_dict r" using 1(4) by (simp add: is_dict_def)
        ultimately show ?thesis using 1(1) 1(3) by blast
      qed
    qed
  qed
qed

lemma pages_loop_exhausted_aux:
  assumes "pages_loop session bw cap raw res container trace = Some out"
    and "cap = None" and "raw"
  shows "\<forall>cs trace'. out = (Inr cs, trace') \<longrightarrow>
           (cs = container \<and> exhausted session bw res)
           \<or> (length container < length cs \<and> exhausted session bw (last cs))"
  using assms(2-)
proof (induct rule: pages_loop.raw_induct [OF _ assms(1)])
  case (1 loop session bw cap raw res container trace out)
  have nc: "\<not> cap_reached (length container) cap" using 1(3) by (simp add: cap_reached_def)
  from fetch_step_cases [of session bw res trace]
  show ?case
  proof (elim disjE exE conjE)
    fix e assume "fetch_step session bw res trace = (Inl e, trace)"
    with nc 1(2) show ?thesis by auto
  next
    fix p assume "fetch_step session bw res trace = (Inr None, trace)"
      "old_response_json res = Inr p" "cursor bw p = None"
    with nc 1(2) show ?thesis by (auto simp: exhausted_def)
  next
    fix p url e assume "fetch_step session bw res trace = (Inl e, trace @ [url])"
    with nc 1(2) show ?thesis by auto
  next
    fix p url x assume fs: "fetch_step session bw res trace = (Inr (Some (Raw x)), trace @ [url])"
      and o: "old_response_json res = Inr p" "cursor bw p = Some url" "session url = Inr x"
    show ?thesis
    proof (cases "truthy x")
      case f: False
      with fs nc 1(2) o show ?thesis by (auto simp: res_truthy_def exhausted_def)
    next
      case t: True
      let ?c = "container @ [Raw x]"
      from fs nc t 1(2,4)
      have "loop session bw cap raw (Raw x) ?c (trace @ [url]) = Some out"
        by (simp add: res_truthy_def)
      from 1(1) [OF this 1(3) 1(4)] show ?thesis
        by (auto simp: less_Suc_eq)
    qed
  qed
qed

lemma merge_results_dicts:
  assumes "\<forall>r \<in> set pages. is_dict r"
  shows "merge_results pages container =
           (if all_results pages then Inr (container @ concat (map page_records pages))
            else Inl KeyError)"
  using assms
proof (induction pages arbitrary: container)
  case Nil
  then show ?case by simp
next
  case (Cons r pages)
  then obtain p where r: "r = Dict p" by (cases r) (auto simp: is_dict_def)
  show ?case
  proof (cases "results p")
    case None
    with r show ?thesis by (simp add: to_json_safe_def)
  next
    case (Some rs)
    with r have "page_records r = rs" "results (to_json_safe r) = Some rs"
      by (simp_all add: to_json_safe_def page_records_def)
    with Cons r Some show ?thesis by simp
  qed
qed


text \<open>
  The page cap where it works: on the chain \<open>P0 \<rightarrow> P1 \<rightarrow> P2\<close> the entry point returns
  the three pages without a cap and two pages with \<^verbatim>\<open>max_pages=2\<close>; and whenever
  decrementing the budget leaves an effective cap, the call returns after at most that
  many requests, with at most one page more than the cap.
\<close>

lemma paginate_capped:
  "paginate chain_session (Raw (ok_response page_P0)) False None False []
     = Some (Inr (Pages [Dict page_P0, Dict page_P1, Dict page_P2]), [''u1'', ''u2''])
   \<and> paginate chain_session (Raw (ok_response page_P0)) False (Some 2) False []
     = Some (Inr (Pages [Dict page_P0, Dict page_P1]), [''u1''])
   \<and> (effective_max_pages (Some (k - 1)) = Some cap \<longrightarrow>
        (\<exists>out trace'. paginate session res merge (Some k) raw trace = Some (out, trace')
           \<and> int (length trace') \<le> int (length trace) + max 0 cap
           \<and> (\<forall>ps. out = Inr (Pages ps) \<longrightarrow> int (length ps) \<le> 1 + max 0 cap)))"
proof (intro conjI impI)
  show "paginate chain_session (Raw (ok_response page_P0)) False None False []
          = Some (Inr (Pages [Dict page_P0, Dict page_P1, Dict page_P2]), [''u1'', ''u2''])"
    by code_simp
  show "paginate chain_session (Raw (ok_response page_P0)) False (Some 2) False []
          = Some (Inr (Pages [Dict page_P0, Dict page_P1]), [''u1''])"
    by code_simp
next
  assume c: "effective_max_pages (Some (k - 1)) = Some cap"
  have walk: "\<exists>out trace'. get_all_pages session res (Some (k - 1)) ''next'' r trace = Some (out, trace')
          \<and> int (length trace') \<le> int (length trace) + max 0 cap
          \<and> (\<forall>cs. out = Inr cs \<longrightarrow> int (length cs) \<le> max 0 cap)" for r
    using pages_loop_capped [of session False cap r res "[]" trace] c
    by (simp add: get_all_pages_def max.commute)
  show "\<exists>out trace'. paginate session res merge (Some k) raw trace = Some (out, trace')
          \<and> int (length trace') \<le> int (length trace) + max 0 cap
          \<and> (\<forall>ps. out = Inr (Pages ps) \<longrightarrow> int (length ps) \<le> 1 + max 0 cap)"
  proof (cases merge)
    case True
    from walk [of False] obtain out trace'
      where w: "get_all_pages session res (Some (k - 1)) ''next'' False trace = Some (out, trace')"
        "int (length trace') \<le> int (length trace) + max 0 cap"
        "\<forall>cs. out = Inr cs \<longrightarrow> int (length cs) \<le> max 0 cap" by blast
    show ?thesis
    proof (cases out)
      case (Inl e)
      with True w show ?thesis by (simp add: paginate_def)
    next
      case (Inr rest)
      with w(3) have "int (length rest) \<le> max 0 cap" by simp
      with True w(1,2) Inr show ?thesis
        by (auto simp: paginate_def Let_def split: sum.splits pyerr.splits)
    qed
  next
    case False
    from walk [of raw] obtain out trace'
      where w: "get_all_pages session res (Some (k - 1)) ''next'' raw trace = Some (out, trace')"
        "int (length trace') \<le> int (length trace) + max 0 cap"
        "\<forall>cs. out = Inr cs \<longrightarrow> int (length cs) \<le> max 0 cap" by blast
    show ?thesis
    proof (cases out)
      case (Inl e)
      with False w show ?thesis by (cases raw) (simp_all add: paginate_def)
    next
      case (Inr rest)
      with w(3) have "int (length rest) \<le> max 0 cap" by simp
      with False w(1,2) Inr show ?thesis
        by (cases raw) (auto simp: paginate_def)
    qed
  qed
qed

text \<open>
  Claim C4 at a budget of one page: the initial page uses the budget up, so no page
  should be fetched; but decrementing leaves 0, which \<^verbatim>\<open>get_all_pages\<close> replaces by
  infinity, and on the chain \<open>P0 \<rightarrow> P1 \<rightarrow> P2\<close> the entry point makes two requests and
  returns all three pages.
\<close>

theorem paginate_budget_of_one:
  "paginate chain_session (Raw (ok_response page_P0)) False (Some 1) False []
     = Some (Inr (Pages [Dict page_P0, Dict page_P1, Dict page_P2]), [''u1'', ''u2''])"
  by code_simp

text \<open>
  Claim C6, as the specification states it, fails: a page whose body is not JSON is
  decoded to a dictionary without \<^verbatim>\<open>results\<close>, and the walk raises
  \<^verbatim>\<open>JSONDecodeError\<close> when it reads the cursor of that page, be it the initial page or
  a fetched one.
\<close>

theorem paginate_merge_not_json:
  "results (to_json_safe (Raw not_json_response)) = None
   \<and> paginate chain_session (Raw not_json_response) True None False []
     = Some (Inl JSONDecodeError, [])
   \<and> paginate chain_session (Raw (ok_response page_G0)) True None False []
     = Some (Inl JSONDecodeError, [''g1''])"
  by code_simp

text \<open>
  Claim C6, amended: when the walk returns its pages, merged pagination raises nothing;
  it returns the concatenation of the records of all pages when every page has the
  \<^verbatim>\<open>results\<close> key, and the list of decoded pages, unchanged, when some page lacks it.
\<close>

theorem paginate_merge_recovers:
  assumes "get_all_pages session res (map_option (\<lambda>m. m - 1) max_pages) ''next'' False trace
             = Some (Inr rest, trace')"
  shows "paginate session res True max_pages raw_page_responses trace
           = Some (Inr (if all_results (Dict (to_json_safe res) # rest)
                        then Records (concat (map page_records (Dict (to_json_safe res) # rest)))
                        else Pages (Dict (to_json_safe res) # rest)), trace')"
proof -
  from assms have "\<forall>r \<in> set rest. is_dict r"
    using pages_loop_dicts_aux [of session False _ False res "[]" trace "(Inr rest, trace')"]
    by (simp add: get_all_pages_def)
  then have "\<forall>r \<in> set (Dict (to_json_safe res) # rest). is_dict r"
    by (simp add: is_dict_def)
  from merge_results_dicts [OF this, of "[]"] assms show ?thesis
    by (simp add: paginate_def Let_def)
qed

theorem paginate_merge_recovers_witness:
  "paginate chain_session (Raw (ok_response page_P0)) True None False []
     = Some (Inr (Records [1, 2, 3, 4, 5, 6]), [''u1'', ''u2''])
   \<and> paginate chain_session (Raw (ok_response page_M0)) True None False []
     = Some (Inr (Pages [Dict page_M0, Dict page_M1, Dict page_P2]), [''m1'', ''u2''])"
proof
  have w: "get_all_pages chain_session (Raw (ok_response page_P0))
             (map_option (\<lambda>m. m - 1) None) ''next'' False []
           = Some (Inr [Dict page_P1, Dict page_P2], [''u1'', ''u2''])"
    by code_simp
  have r: "(if all_results (Dict (to_json_safe (Raw (ok_response page_P0)))
                            # [Dict page_P1, Dict page_P2])
            then Records (concat (map page_records
                   (Dict (to_json_safe (Raw (ok_response page_P0)))
                    # [Dict page_P1, Dict page_P2])))
            else Pages (Dict (to_json_safe (Raw (ok_response page_P0)))
                        # [Dict page_P1, Dict page_P2]))
           = Records [1, 2, 3, 4, 5, 6]"
    by code_simp
  from paginate_merge_recovers [OF w, of False] r
  show "paginate chain_session (Raw (ok_response page_P0)) True None False []
          = Some (Inr (Records [1, 2, 3, 4, 5, 6]), [''u1'', ''u2''])"
    by simp
next
  have w: "get_all_pages chain_session (Raw (ok_response page_M0))
             (map_option (\<lambda>m. m - 1) None) ''next'' False []
           = Some (Inr [Dict page_M1, Dict page_P2], [''m1'', ''u2''])"
    by code_simp
  have r: "(if all_results (Dict (to_json_safe (Raw (ok_response page_M0)))
                            # [Dict page_M1, Dict page_P2])
            then Records (concat (map page_records
                   (Dict (to_json_safe (Raw (ok_response page_M0)))
                    # [Dict page_M1, Dict page_P2])))
            else Pages (Dict (to_json_safe (Raw (ok_response page_M0)))
                        # [Dict page_M1, Dict page_P2]))
           = Pages [Dict page_M0, Dict page_M1, Dict page_P2]"
    by code_simp
  from paginate_merge_recovers [OF w, of False] r
  show "paginate chain_session (Raw (ok_response page_M0)) True None False []
          = Some (Inr (Pages [Dict page_M0, Dict page_M1, Dict page_P2]), [''m1'', ''u2''])"
    by simp
qed

text \<open>
  Claim C10: \<^verbatim>\<open>get_all_pages\<close> with \<^verbatim>\<open>max_pages=0\<close> is \<^verbatim>\<open>get_all_pages\<close> with
  \<^verbatim>\<open>max_pages=None\<close>; on the chain from \<open>P0\<close> it fetches both remaining pages; and when
  it returns (here with raw responses), no page follows the last one: that page has no
  cursor or the response to its cursor is false.
\<close>

theorem get_all_pages_zero_uncapped:
  "get_all_pages session old_response (Some 0) direction raw_responses trace
     = get_all_pages session old_response None direction raw_responses trace
   \<and> get_all_pages chain_session (Raw (ok_response page_P0)) (Some 0) ''next'' False []
     = Some (Inr [Dict page_P1, Dict page_P2], [''u1'', ''u2''])
   \<and> (get_all_pages session old_response (Some 0) direction True trace = Some (Inr cs, trace')
        \<longrightarrow> exhausted session (direction \<in> {''prev'', ''previous''}) (last (old_response # cs)))"
proof (intro conjI impI)
  show "get_all_pages session old_response (Some 0) direction raw_responses trace
          = get_all_pages session old_response None direction raw_responses trace"
    by (simp add: get_all_pages_def effective_max_pages_def)
  show "get_all_pages chain_session (Raw (ok_response page_P0)) (Some 0) ''next'' False []
          = Some (Inr [Dict page_P1, Dict page_P2], [''u1'', ''u2''])"
    by code_simp
next
  assume "get_all_pages session old_response (Some 0) direction True trace = Some (Inr cs, trace')"
  then have "pages_loop session (direction \<in> {''prev'', ''previous''}) None True old_response []
               trace = Some (Inr cs, trace')"
    by (simp add: get_all_pages_def effective_max_pages_def)
  from pages_loop_exhausted_aux [OF this]
  show "exhausted session (direction \<in> {''prev'', ''previous''}) (last (old_response # cs))"
    by auto
qed

theorem get_all_pages_zero_uncapped_witness:
  "get_all_pages chain_session (Raw (ok_response page_P0)) (Some 0) ''next'' True []
     = Some (Inr [Raw (ok_response page_P1), Raw (ok_response page_P2)], [''u1'', ''u2''])
   \<and> exhausted chain_session (''next'' \<in> {''prev'', ''previous''})
       (last [Raw (ok_response page_P0), Raw (ok_response page_P1), Raw (ok_response page_P2)])"
proof -
  have w: "get_all_pages chain_session (Raw (ok_response page_P0)) (Some 0) ''next'' True []
             = Some (Inr [Raw (ok_response page_P1), Raw (ok_response page_P2)], [''u1'', ''u2''])"
    by code_simp
  from get_all_pages_zero_uncapped [of chain_session "Raw (ok_response page_P0)" "''next''" _ "[]"
         "[Raw (ok_response page_P1), Raw (ok_response page_P2)]" "[''u1'', ''u2'']"] w
  show ?thesis by simp
qed

section \<open>Properties of the fetch-merge engine\<close>

lemma sorted_le_last:
  "sorted_wrt (<) (map t xs) \<Longrightarrow> x \<in> set xs \<Longrightarrow> t x \<le> t (last xs)"
proof (induction xs)
  case Nil
  then show ?case by simp
next
  case (Cons a xs)
  then show ?case by (cases "xs = []") (auto simp: less_imp_le)
qed

lemma collect_futures_sorted:
  assumes "\<forall>p \<in> set ps. page_sorted p"
    and "sorted_wrt (<) (map t final)"
    and "if final = [] then H = 0 else H = t (last final)"
  shows "\<exists>out. collect_futures ps H final = Inr out \<and> sorted_wrt (<) (map t out)"
  using assms
proof (induction ps arbitrary: H final)
  case Nil
  then show ?case by simp
next
  case (Cons p ps)
  show ?case
  proof (cases "results p")
    case None
    with Cons show ?thesis by simp
  next
    case (Some data)
    show ?thesis
    proof (cases "data = []")
      case True
      with Some Cons show ?thesis by simp
    next
      case False
      let ?new = "filter (\<lambda>candle. H < t candle) data"
      let ?f = "final @ ?new"
      from Cons.prems(1) Some have ds: "sorted_wrt (<) (map t data)" and pos: "\<forall>c \<in> set data. 0 < t c"
        by (auto simp: page_sorted_def list_all_iff)
      have ne: "?f \<noteq> []"
      proof (cases "final = []")
        case True
        with Cons.prems(3) have "H = 0" by simp
        with pos have "?new = data" by simp
        with False show ?thesis by simp
      next
        case False
        then show ?thesis by simp
      qed
      have "sorted_wrt (<) (map t ?new)"
        using ds by (simp add: sorted_wrt_map sorted_wrt_filter)
      moreover have "\<forall>x \<in> set final. \<forall>y \<in> set ?new. t x < t y"
      proof (intro ballI)
        fix x y assume x: "x \<in> set final" and y: "y \<in> set ?new"
        then have "final \<noteq> []" by auto
        with Cons.prems(3) have "H = t (last final)" by simp
        with sorted_le_last [OF Cons.prems(2) x] y show "t x < t y" by simp
      qed
      ultimately have sf: "sorted_wrt (<) (map t ?f)"
        using Cons.prems(2) by (simp add: sorted_wrt_append)
      have "\<exists>out. collect_futures ps (t (last ?f)) ?f = Inr out \<and> sorted_wrt (<) (map t out)"
        using Cons.prems(1) sf ne by (intro Cons.IH) auto
      with Some False ne show ?thesis by (simp add: Let_def)
    qed
  qed
qed

lemma submit_chunks_log:
  "submit_chunks lib fn is_async symbol adjusted multiplier timespan chunks futures trace = (out, trace')
   \<Longrightarrow> \<forall>a \<in> set trace'. a \<in> set trace \<or> (a_limit a = 500000 \<and> a_sort a = ''asc'')"
proof (induction chunks arbitrary: futures trace)
  case Nil
  then show ?case by simp
next
  case (Cons c chunks)
  show ?case
  proof (cases "normalize_out lib (fst c) ''nts'' ''start''")
    case (Inl e)
    with Cons.prems show ?thesis by simp
  next
    case c0: (Inr c0)
    show ?thesis
    proof (cases "normalize_out lib (snd c) ''nts'' ''end''")
      case (Inl e)
      with c0 Cons.prems show ?thesis by simp
    next
      case c1: (Inr c1)
      from Cons.prems c0 c1 Cons.IH show ?thesis
        by (fastforce simp: Let_def)
    qed
  qed
qed

lemma submit_chunks_futures:
  "submit_chunks lib fn is_async symbol adjusted multiplier timespan chunks futures trace = (Inr fs, trace')
   \<Longrightarrow> \<forall>p \<in> set fs. p \<in> set futures \<or> p \<in> range (\<lambda>(l, a). fn l a)"
proof (induction chunks arbitrary: futures trace)
  case Nil
  then show ?case by simp
next
  case (Cons c chunks)
  then show ?case
    by (fastforce simp: Let_def split: sum.splits)
qed

lemma seq_loop_log:
  "seq_loop fn symbol end_dt adjusted sort' multiplier timespan current_dt dupe_handler
     final_results trace = (out, trace')
   \<Longrightarrow> \<forall>a \<in> set trace'. a \<in> set trace \<or> a_limit a = 500000"
proof (induction fn symbol end_dt adjusted sort' multiplier timespan current_dt dupe_handler
         final_results trace rule: seq_loop.induct)
  case (1 fn symbol end_dt adjusted sort' multiplier timespan current_dt dupe_handler
          final_results trace)
  let ?args = "seq_args symbol current_dt end_dt adjusted sort' multiplier timespan"
  let ?trace = "trace @ [?args]"
  have al: "a_limit ?args = 500000" by (simp add: seq_args_def)
  note eq = "1.prems" [unfolded seq_loop.simps [of fn symbol end_dt adjusted sort' multiplier
                          timespan current_dt dupe_handler final_results trace]]
  show ?case
  proof (cases "num_val end_dt \<le> num_val current_dt")
    case True
    with eq show ?thesis by simp
  next
    case False
    show ?thesis
    proof (cases "results (fn trace ?args)")
      case None
      with eq False al show ?thesis by (auto simp: Let_def)
    next
      case (Some data)
      let ?f = "final_results @ filter (\<lambda>candle. num_val dupe_handler < of_int (t candle)) data"
      show ?thesis
      proof (cases "length data < 1
                    \<or> (length ?f = length final_results
                        \<and> of_int (t (last data)) \<le> num_val dupe_handler)
                    \<or> ?f = []")
        case True
        with eq False Some al show ?thesis by (auto simp: Let_def split: if_splits)
      next
        case stop: False
        with eq False Some
        have r: "seq_loop fn symbol end_dt adjusted sort' multiplier timespan
                   (NInt (t (last ?f))) (NInt (t (last ?f))) ?f ?trace = (out, trace')"
          by (auto simp: Let_def split: if_splits)
        have "\<forall>a \<in> set trace'. a \<in> set ?trace \<or> a_limit a = 500000"
          using stop by (intro "1.IH" [OF False refl refl refl Some _ refl _ _ r]) auto
        with al show ?thesis by auto
      qed
    qed
  qed
qed

lemma seq_loop_cong:
  "(\<forall>l a. a_limit a = 500000 \<longrightarrow> fn l a = fn' l a)
   \<Longrightarrow> seq_loop fn symbol end_dt adjusted sort' multiplier timespan current_dt dupe_handler
         final_results trace
       = seq_loop fn' symbol end_dt adjusted sort' multiplier timespan current_dt dupe_handler
           final_results trace"
proof (induction fn symbol end_dt adjusted sort' multiplier timespan current_dt dupe_handler
         final_results trace rule: seq_loop.induct)
  case (1 fn symbol end_dt adjusted sort' multiplier timespan current_dt dupe_handler
          final_results trace)
  let ?args = "seq_args symbol current_dt end_dt adjusted sort' multiplier timespan"
  let ?trace = "trace @ [?args]"
  have "a_limit ?args = 500000" by (simp add: seq_args_def)
  with "1.prems" have fa: "fn' trace ?args = fn trace ?args" by simp
  note l = seq_loop.simps [of fn symbol end_dt adjusted sort' multiplier timespan current_dt
                             dupe_handler final_results trace]
  note r = seq_loop.simps [of fn' symbol end_dt adjusted sort' multiplier timespan current_dt
                             dupe_handler final_results trace]
  show ?case
  proof (cases "num_val end_dt \<le> num_val current_dt")
    case True
    then show ?thesis by (simp add: l r)
  next
    case False
    show ?thesis
    proof (cases "results (fn trace ?args)")
      case None
      with False fa show ?thesis by (simp add: l r Let_def)
    next
      case (Some data)
      let ?f = "final_results @ filter (\<lambda>candle. num_val dupe_handler < of_int (t candle)) data"
      show ?thesis
      proof (cases "length data < 1
                    \<or> (length ?f = length final_results
                        \<and> of_int (t (last data)) \<le> num_val dupe_handler)
                    \<or> ?f = []")
        case True
        with False Some fa show ?thesis by (auto simp: l r Let_def)
      next
        case stop: False
        have "seq_loop fn symbol end_dt adjusted sort' multiplier timespan
                (NInt (t (last ?f))) (NInt (t (last ?f))) ?f ?trace
              = seq_loop fn' symbol end_dt adjusted sort' multiplier timespan
                  (NInt (t (last ?f))) (NInt (t (last ?f))) ?f ?trace"
          using stop "1.prems"
          by (intro "1.IH" [OF False refl refl refl Some _ refl _ _]) auto
        with stop False Some fa show ?thesis by (auto simp: l r Let_def)
      qed
    qed
  qed
qed

lemma submit_chunks_cong:
  assumes "\<forall>l a. a_limit a = 500000 \<and> a_sort a = ''asc'' \<longrightarrow> fn l a = fn' l a"
  shows "submit_chunks lib fn is_async symbol adjusted multiplier timespan chunks futures trace
         = submit_chunks lib fn' is_async symbol adjusted multiplier timespan chunks futures
             trace"
proof (induction chunks arbitrary: futures trace)
  case Nil
  show ?case by simp
next
  case (Cons c chunks)
  show ?case
    using assms Cons.IH by (cases is_async) (simp_all add: Let_def split: sum.splits)
qed

lemma parallel_sort_reversal:
  "get_full_range_aggregates_parallel lib fn is_async symbol time_chunks adjusted sort' limit
     multiplier timespan
   = apfst (if sort' \<in> {''desc'', ''descending''} then map_sum id rev else id)
       (get_full_range_aggregates_parallel lib fn is_async symbol time_chunks adjusted ''asc''
          limit' multiplier timespan)"
  by (simp add: get_full_range_aggregates_parallel_def split: prod.splits sum.splits)

text \<open>
  Claim C1, as the specification states it, fails: the filter compares every record of a
  window with the mark the window started with, so a window whose records are not in
  increasing order, here with the timestamps 2, 1, 2, is appended as it is; the series
  has a duplicate timestamp and is not increasing.
\<close>

theorem parallel_unsorted_window:
  "fst (get_full_range_aggregates_parallel iso_lib unsorted_fn False ''X'' [(PInt 1, PInt 3)]
          True ''asc'' 5000 1 ''day'')
   = Inr [bar 2, bar 1, bar 2]"
  by code_simp

text \<open>
  Claim C1, amended: in concurrent mode, when all windows are submitted and every
  window's record list has positive, strictly increasing timestamps, the call returns;
  only records above the mark (0 at first, then the timestamp of the last record of the
  output) are appended, and the series is strictly increasing in timestamp, so without
  duplicate timestamps, before the one final reversal that a descending sort order asks
  for. Two windows with the timestamps 1, 2, 3 and 3, 4, 5, processed in this order, give
  1, 2, 3, 4, 5.
\<close>

theorem parallel_series_increasing:
  assumes "\<forall>l a. page_sorted (fn l a)"
    and "submit_chunks lib fn is_async symbol adjusted multiplier timespan time_chunks [] []
           = (Inr futures, trace)"
  shows "(\<exists>series.
            get_full_range_aggregates_parallel lib fn is_async symbol time_chunks adjusted sort'
              limit multiplier timespan
            = (Inr (if sort' \<in> {''desc'', ''descending''} then rev series else series), trace)
            \<and> collect_futures (rev futures) 0 [] = Inr series
            \<and> sorted_wrt (<) (map t series) \<and> distinct (map t series))
         \<and> fst (get_full_range_aggregates_parallel iso_lib overlap_fn False ''X''
                  [(PInt 3, PInt 5), (PInt 1, PInt 3)] True ''asc'' 5000 1 ''day'')
           = Inr [bar 1, bar 2, bar 3, bar 4, bar 5]"
proof
  from submit_chunks_futures [OF assms(2)] assms(1)
  have "\<forall>p \<in> set (rev futures). page_sorted p" by auto
  then obtain series
    where s: "collect_futures (rev futures) 0 [] = Inr series" "sorted_wrt (<) (map t series)"
    using collect_futures_sorted [of "rev futures" "[]" 0] by auto
  from s(2) have "distinct (map t series)"
    by (simp add: strict_sorted_iff)
  with s assms(2)
  show "\<exists>series.
          get_full_range_aggregates_parallel lib fn is_async symbol time_chunks adjusted sort'
            limit multiplier timespan
          = (Inr (if sort' \<in> {''desc'', ''descending''} then rev series else series), trace)
          \<and> collect_futures (rev futures) 0 [] = Inr series
          \<and> sorted_wrt (<) (map t series) \<and> distinct (map t series)"
    by (auto simp: get_full_range_aggregates_parallel_def)
  show "fst (get_full_range_aggregates_parallel iso_lib overlap_fn False ''X''
               [(PInt 3, PInt 5), (PInt 1, PInt 3)] True ''asc'' 5000 1 ''day'')
        = Inr [bar 1, bar 2, bar 3, bar 4, bar 5]"
    by code_simp
qed

theorem parallel_series_increasing_witness:
  "(\<forall>l a. page_sorted (overlap_fn l a))
   \<and> fst (get_full_range_aggregates_parallel iso_lib overlap_fn True ''X''
            [(PInt 3, PInt 5), (PInt 1, PInt 3)] True ''desc'' 5000 1 ''day'')
     = Inr (rev [bar 1, bar 2, bar 3, bar 4, bar 5])
   \<and> sorted_wrt (<) (map t [bar 1, bar 2, bar 3, bar 4, bar 5])"
proof -
  have ps: "\<forall>l a. page_sorted (overlap_fn l a)"
    by (simp add: page_sorted_def overlap_fn_def example_page_def bar_def)
  obtain trace where sub: "submit_chunks iso_lib overlap_fn True ''X'' True 1 ''day''
           [(PInt 3, PInt 5), (PInt 1, PInt 3)] [] []
         = (Inr [example_page [3, 4, 5], example_page [1, 2, 3]], trace)"
    by (simp add: normalize_out_def normalize_datetime_def overlap_fn_def Let_def)
  have col: "collect_futures (rev [example_page [3, 4, 5], example_page [1, 2, 3]]) 0 []
             = Inr [bar 1, bar 2, bar 3, bar 4, bar 5]"
    by code_simp
  from parallel_series_increasing [OF ps sub, of "''desc''" 5000] col ps show ?thesis
    by auto
qed

text \<open>
  Claim C3: in the walk of sequential mode, a fetch whose records all have a timestamp
  at most the high-water mark ends the walk: the call after that one fetch returns the
  results accumulated so far. (The walk is defined by well-founded recursion: every step
  that continues raises the mark, so it terminates whatever the upstream answers.)
\<close>

theorem seq_loop_stops_without_new_records:
  assumes "num_val current_dt < num_val end_dt"
    and "results (fn trace (seq_args symbol current_dt end_dt adjusted sort' multiplier
                              timespan)) = Some data"
    and "\<forall>c \<in> set data. of_int (t c) \<le> num_val dupe_handler"
  shows "seq_loop fn symbol end_dt adjusted sort' multiplier timespan current_dt dupe_handler
           final_results trace
         = (Inr final_results,
            trace @ [seq_args symbol current_dt end_dt adjusted sort' multiplier timespan])"
proof -
  from assms(3)
  have f: "filter (\<lambda>candle. num_val dupe_handler < of_int (t candle)) data = []"
    by (auto simp: filter_empty_conv)
  show ?thesis
  proof (cases "data = []")
    case True
    with assms(1,2) show ?thesis by (subst seq_loop.simps) (simp add: Let_def)
  next
    case False
    then have "last data \<in> set data" by simp
    with assms(3) have "of_int (t (last data)) \<le> num_val dupe_handler" by blast
    with False f assms(1,2) show ?thesis by (subst seq_loop.simps) (simp add: Let_def)
  qed
qed

theorem seq_loop_stops_without_new_records_witness:
  "get_full_range_aggregates_sequential iso_lib stale_fn ''X'' (PInt 0, PInt 86400001) True
     ''asc'' 5000 1 ''second''
   = (Inr [bar 1, bar 2, bar 3],
      [seq_args ''X'' (NInt 0) (NInt 86400001) True ''asc'' 1 ''second'',
       seq_args ''X'' (NInt 3) (NInt 86400001) True ''asc'' 1 ''second''])
   \<and> seq_loop stale_fn ''X'' (NInt 86400001) True ''asc'' 1 ''second'' (NInt 3) (NInt 3)
       [bar 1, bar 2, bar 3] [seq_args ''X'' (NInt 0) (NInt 86400001) True ''asc'' 1 ''second'']
     = (Inr [bar 1, bar 2, bar 3],
        [seq_args ''X'' (NInt 0) (NInt 86400001) True ''asc'' 1 ''second'',
         seq_args ''X'' (NInt 3) (NInt 86400001) True ''asc'' 1 ''second''])"
proof
  show "get_full_range_aggregates_sequential iso_lib stale_fn ''X'' (PInt 0, PInt 86400001) True
          ''asc'' 5000 1 ''second''
        = (Inr [bar 1, bar 2, bar 3],
           [seq_args ''X'' (NInt 0) (NInt 86400001) True ''asc'' 1 ''second'',
            seq_args ''X'' (NInt 3) (NInt 86400001) True ''asc'' 1 ''second''])"
    by code_simp
  have a: "num_val (NInt 3) < num_val (NInt 86400001)" by (simp add: num_val_def)
  have b: "results (stale_fn [seq_args ''X'' (NInt 0) (NInt 86400001) True ''asc'' 1 ''second'']
                      (seq_args ''X'' (NInt 3) (NInt 86400001) True ''asc'' 1 ''second''))
           = Some [bar 1, bar 2, bar 3]"
    by (simp add: stale_fn_def example_page_def)
  have c: "\<forall>c \<in> set [bar 1, bar 2, bar 3]. of_int (t c) \<le> num_val (NInt 3)"
    by (simp add: bar_def num_val_def)
  from seq_loop_stops_without_new_records
         [where current_dt = "NInt 3" and end_dt = "NInt 86400001" and fn = stale_fn
            and trace = "[seq_args ''X'' (NInt 0) (NInt 86400001) True ''asc'' 1 ''second'']"
            and symbol = "''X''" and adjusted = True and sort' = "''asc''" and multiplier = 1
            and timespan = "''second''" and data = "[bar 1, bar 2, bar 3]"
            and dupe_handler = "NInt 3" and final_results = "[bar 1, bar 2, bar 3]"] a b c
  show "seq_loop stale_fn ''X'' (NInt 86400001) True ''asc'' 1 ''second'' (NInt 3) (NInt 3)
          [bar 1, bar 2, bar 3]
          [seq_args ''X'' (NInt 0) (NInt 86400001) True ''asc'' 1 ''second'']
        = (Inr [bar 1, bar 2, bar 3],
           [seq_args ''X'' (NInt 0) (NInt 86400001) True ''asc'' 1 ''second'',
            seq_args ''X'' (NInt 3) (NInt 86400001) True ''asc'' 1 ''second''])"
    by simp
qed

lemma sequential_log:
  "\<forall>a \<in> set (snd (get_full_range_aggregates_sequential lib fn symbol time_chunks adjusted sort'
                     limit multiplier timespan)). a_limit a = 500000"
proof -
  have loop: "\<forall>a \<in> set (snd (seq_loop fn symbol e adjusted sort' multiplier timespan c c [] [])).
                a_limit a = 500000" for e c
    using seq_loop_log [of fn symbol e adjusted sort' multiplier timespan c c "[]" "[]"]
    by (cases "seq_loop fn symbol e adjusted sort' multiplier timespan c c [] []") auto
  show ?thesis
    unfolding get_full_range_aggregates_sequential_def
    using loop
    by (auto simp: Let_def seq_args_def split: sum.splits option.splits pyval.splits)
qed

lemma parallel_cong:
  assumes "\<forall>l a. a_limit a = 500000 \<and> a_sort a = ''asc'' \<longrightarrow> fn l a = fn' l a"
  shows "get_full_range_aggregates_parallel lib fn is_async symbol time_chunks adjusted sort'
           limit multiplier timespan
         = get_full_range_aggregates_parallel lib fn' is_async symbol time_chunks adjusted sort'
             limit multiplier timespan"
  by (simp add: get_full_range_aggregates_parallel_def submit_chunks_cong [OF assms])

lemma sequential_cong:
  assumes "\<forall>l a. a_limit a = 500000 \<longrightarrow> fn l a = fn' l a"
  shows "get_full_range_aggregates_sequential lib fn symbol chunk adjusted sort' limit
           multiplier timespan
         = get_full_range_aggregates_sequential lib fn' symbol chunk adjusted sort' limit
             multiplier timespan"
proof -
  have a: "fn [] (seq_args symbol c e adjusted sort' multiplier timespan)
           = fn' [] (seq_args symbol c e adjusted sort' multiplier timespan)" for c e
    using assms by (simp add: seq_args_def)
  show ?thesis
    unfolding get_full_range_aggregates_sequential_def
    by (simp add: a seq_loop_cong [OF assms] Let_def
             split: sum.splits option.splits pyval.splits prod.splits)
qed

text \<open>
  Claim C9: every call of \<^verbatim>\<open>fn\<close> that \<^verbatim>\<open>get_full_range_aggregates\<close> makes, in either
  mode and for either client, passes \<^verbatim>\<open>limit=500000\<close>, and in concurrent mode
  \<^verbatim>\<open>sort="asc"\<close>: the calls appended to the trace have these arguments, and the outcome
  depends on \<^verbatim>\<open>fn\<close> only through what it returns for such arguments, so two fetch
  functions that agree on them give the same outcome. The outcome does not depend on the
  caller's \<^verbatim>\<open>limit\<close>, and in concurrent mode the caller's sort order only decides
  whether the merged series of the ascending call is reversed once at the end.
\<close>

theorem fetch_calls_limit_and_sort:
  "(\<forall>a \<in> set (snd (get_full_range_aggregates_parallel lib fn is_async symbol time_chunks
                      adjusted sort' limit multiplier timespan)).
      a_limit a = 500000 \<and> a_sort a = ''asc'')
   \<and> (\<forall>a \<in> set (snd (get_full_range_aggregates_sequential lib fn symbol chunk adjusted sort'
                        limit multiplier timespan)).
        a_limit a = 500000)
   \<and> ((\<forall>l a. a_limit a = 500000 \<and> a_sort a = ''asc'' \<longrightarrow> fn l a = fn' l a) \<longrightarrow>
        get_full_range_aggregates_parallel lib fn is_async symbol time_chunks adjusted sort'
          limit multiplier timespan
        = get_full_range_aggregates_parallel lib fn' is_async symbol time_chunks adjusted sort'
            limit multiplier timespan)
   \<and> ((\<forall>l a. a_limit a = 500000 \<longrightarrow> fn l a = fn' l a) \<longrightarrow>
        get_full_range_aggregates_sequential lib fn symbol chunk adjusted sort' limit
          multiplier timespan
        = get_full_range_aggregates_sequential lib fn' symbol chunk adjusted sort' limit
            multiplier timespan)
   \<and> get_full_range_aggregates_parallel lib fn is_async symbol time_chunks adjusted sort' limit
       multiplier timespan
     = apfst (if sort' \<in> {''desc'', ''descending''} then map_sum id rev else id)
         (get_full_range_aggregates_parallel lib fn is_async symbol time_chunks adjusted ''asc''
            limit' multiplier timespan)
   \<and> get_full_range_aggregates_sequential lib fn symbol chunk adjusted sort' limit multiplier
       timespan
     = get_full_range_aggregates_sequential lib fn symbol chunk adjusted sort' limit' multiplier
         timespan"
proof (intro conjI impI)
  show "\<forall>a \<in> set (snd (get_full_range_aggregates_parallel lib fn is_async symbol time_chunks
                        adjusted sort' limit multiplier timespan)).
          a_limit a = 500000 \<and> a_sort a = ''asc''"
  proof -
    obtain out trace
      where sub: "submit_chunks lib fn is_async symbol adjusted multiplier timespan time_chunks
                    [] [] = (out, trace)"
      by (cases "submit_chunks lib fn is_async symbol adjusted multiplier timespan time_chunks
                   [] []") auto
    from submit_chunks_log [OF sub]
    have "\<forall>a \<in> set trace. a_limit a = 500000 \<and> a_sort a = ''asc''" by simp
    with sub show ?thesis
      by (auto simp: get_full_range_aggregates_parallel_def split: sum.splits)
  qed
  show "\<forall>a \<in> set (snd (get_full_range_aggregates_sequential lib fn symbol chunk adjusted sort'
                        limit multiplier timespan)).
          a_limit a = 500000"
    by (rule sequential_log)
  show "get_full_range_aggregates_parallel lib fn is_async symbol time_chunks adjusted sort' limit
          multiplier timespan
        = apfst (if sort' \<in> {''desc'', ''descending''} then map_sum id rev else id)
            (get_full_range_aggregates_parallel lib fn is_async symbol time_chunks adjusted
               ''asc'' limit' multiplier timespan)"
    by (rule parallel_sort_reversal)
  show "get_full_range_aggregates_sequential lib fn symbol chunk adjusted sort' limit multiplier
          timespan
        = get_full_range_aggregates_sequential lib fn symbol chunk adjusted sort' limit'
            multiplier timespan"
    by (simp add: get_full_range_aggregates_sequential_def)
next
  assume "\<forall>l a. a_limit a = 500000 \<and> a_sort a = ''asc'' \<longrightarrow> fn l a = fn' l a"
  then show "get_full_range_aggregates_parallel lib fn is_async symbol time_chunks adjusted sort'
               limit multiplier timespan
             = get_full_range_aggregates_parallel lib fn' is_async symbol time_chunks adjusted
                 sort' limit multiplier timespan"
    by (rule parallel_cong)
next
  assume "\<forall>l a. a_limit a = 500000 \<longrightarrow> fn l a = fn' l a"
  then show "get_full_range_aggregates_sequential lib fn symbol chunk adjusted sort' limit
               multiplier timespan
             = get_full_range_aggregates_sequential lib fn' symbol chunk adjusted sort' limit
                 multiplier timespan"
    by (rule sequential_cong)
qed

theorem fetch_calls_limit_and_sort_witness:
  "get_full_range_aggregates_parallel iso_lib strict_overlap_fn False ''X''
     [(PInt 3, PInt 5), (PInt 1, PInt 3)] True ''desc'' 5000 1 ''day''
   = get_full_range_aggregates_parallel iso_lib overlap_fn False ''X''
       [(PInt 3, PInt 5), (PInt 1, PInt 3)] True ''desc'' 5000 1 ''day''
   \<and> fst (get_full_range_aggregates_parallel iso_lib strict_overlap_fn False ''X''
            [(PInt 3, PInt 5), (PInt 1, PInt 3)] True ''desc'' 5000 1 ''day'')
     = Inr [bar 5, bar 4, bar 3, bar 2, bar 1]
   \<and> list_all (\<lambda>a. a_limit a = 500000 \<and> a_sort a = ''asc'')
       (snd (get_full_range_aggregates_parallel iso_lib strict_overlap_fn False ''X''
               [(PInt 3, PInt 5), (PInt 1, PInt 3)] True ''desc'' 5000 1 ''day''))
   \<and> get_full_range_aggregates_sequential iso_lib strict_stale_fn ''X'' (PInt 0, PInt 86400001)
       True ''desc'' 5000 1 ''second''
     = get_full_range_aggregates_sequential iso_lib stale_fn ''X'' (PInt 0, PInt 86400001)
         True ''desc'' 5000 1 ''second''
   \<and> fst (get_full_range_aggregates_sequential iso_lib strict_stale_fn ''X''
            (PInt 0, PInt 86400001) True ''desc'' 5000 1 ''second'')
     = Inr [bar 1, bar 2, bar 3]
   \<and> list_all (\<lambda>a. a_limit a = 500000)
       (snd (get_full_range_aggregates_sequential iso_lib strict_stale_fn ''X''
               (PInt 0, PInt 86400001) True ''desc'' 5000 1 ''second''))"
proof -
  note th = fetch_calls_limit_and_sort
         [where lib = iso_lib and fn = strict_overlap_fn and fn' = overlap_fn
            and is_async = False and symbol = "''X''"
            and time_chunks = "[(PInt 3, PInt 5), (PInt 1, PInt 3)]" and adjusted = True
            and sort' = "''desc''" and limit = 5000 and multiplier = 1 and timespan = "''day''"]
  note ts = fetch_calls_limit_and_sort
         [where lib = iso_lib and fn = strict_stale_fn and fn' = stale_fn and symbol = "''X''"
            and chunk = "(PInt 0, PInt 86400001)" and adjusted = True
            and sort' = "''desc''" and limit = 5000 and multiplier = 1
            and timespan = "''second''"]
  have ho: "\<forall>l a. a_limit a = 500000 \<and> a_sort a = ''asc''
              \<longrightarrow> strict_overlap_fn l a = overlap_fn l a"
    by (simp add: strict_overlap_fn_def)
  have hs: "\<forall>l a. a_limit a = 500000 \<longrightarrow> strict_stale_fn l a = stale_fn l a"
    by (simp add: strict_stale_fn_def)
  have p: "get_full_range_aggregates_parallel iso_lib strict_overlap_fn False ''X''
             [(PInt 3, PInt 5), (PInt 1, PInt 3)] True ''desc'' 5000 1 ''day''
           = get_full_range_aggregates_parallel iso_lib overlap_fn False ''X''
               [(PInt 3, PInt 5), (PInt 1, PInt 3)] True ''desc'' 5000 1 ''day''"
    by (rule th [THEN conjunct2, THEN conjunct2, THEN conjunct1, THEN mp, OF ho])
  have q: "get_full_range_aggregates_sequential iso_lib strict_stale_fn ''X''
             (PInt 0, PInt 86400001) True ''desc'' 5000 1 ''second''
           = get_full_range_aggregates_sequential iso_lib stale_fn ''X'' (PInt 0, PInt 86400001)
               True ''desc'' 5000 1 ''second''"
    by (rule ts [THEN conjunct2, THEN conjunct2, THEN conjunct2, THEN conjunct1, THEN mp,
                 OF hs])
  have vp: "fst (get_full_range_aggregates_parallel iso_lib overlap_fn False ''X''
                   [(PInt 3, PInt 5), (PInt 1, PInt 3)] True ''desc'' 5000 1 ''day'')
            = Inr [bar 5, bar 4, bar 3, bar 2, bar 1]"
    by code_simp
  have vq: "fst (get_full_range_aggregates_sequential iso_lib stale_fn ''X''
                   (PInt 0, PInt 86400001) True ''desc'' 5000 1 ''second'')
            = Inr [bar 1, bar 2, bar 3]"
    by code_simp
  have lp: "list_all (\<lambda>a. a_limit a = 500000 \<and> a_sort a = ''asc'')
              (snd (get_full_range_aggregates_parallel iso_lib strict_overlap_fn False ''X''
                      [(PInt 3, PInt 5), (PInt 1, PInt 3)] True ''desc'' 5000 1 ''day''))"
    unfolding list_all_iff by (rule th [THEN conjunct1])
  have lq: "list_all (\<lambda>a. a_limit a = 500000)
              (snd (get_full_range_aggregates_sequential iso_lib strict_stale_fn ''X''
                      (PInt 0, PInt 86400001) True ''desc'' 5000 1 ''second''))"
    unfolding list_all_iff by (rule ts [THEN conjunct2, THEN conjunct1])
  from p q vp vq lp lq show ?thesis by simp
qed

end
